(* ===== verification/Prelude.thy ===== *)
theory Prelude
  imports Main "HOL-Library.Word"
begin

text \<open>
  Shared vocabulary of the development: the machine integer types of the C sources, pointers that
  may be \<open>NULL\<close>, the allocator as an argument of every operation that calls \<open>malloc\<close>, results
  with error codes, and the generic facts on lists and words that the component theories use.
\<close>

section \<open>Types of the model\<close>

type_synonym u8 = "8 word"
type_synonym u16 = "16 word"
type_synonym u32 = "32 word"
type_synonym u64 = "64 word"

text \<open>
  A pointer argument that the code compares with \<open>NULL\<close> is an option: \<open>None\<close> is the null pointer,
  \<open>Some v\<close> a pointer to an object holding \<open>v\<close>.
\<close>

type_synonym 'a ptr = "'a option"

abbreviation NULL :: "'a ptr" where
  "NULL \<equiv> None"

text \<open>
  The allocator: \<open>al n\<close> says whether a request for \<open>n\<close> bytes (\<open>malloc\<close>, \<open>calloc\<close>, \<open>realloc\<close>)
  succeeds while one operation runs. Every operation that allocates takes it as an argument, so
  that the out-of-memory branches of the code are branches of the model. The allocator that never
  fails is the instance used where a result is promised.
\<close>

type_synonym alloc = "nat \<Rightarrow> bool"

definition alloc_total :: "alloc \<Rightarrow> bool" where
  "alloc_total al \<longleftrightarrow> (\<forall>n. al n)"

definition no_oom :: alloc where
  "no_oom = (\<lambda>_. True)"

lemma alloc_totalD: "alloc_total al \<Longrightarrow> al n"
  by (simp add: alloc_total_def)

lemma alloc_total_no_oom [simp]: "alloc_total no_oom"
  by (simp add: alloc_total_def no_oom_def)

lemma no_oom_apply [simp]: "no_oom n"
  by (simp add: no_oom_def)

text \<open>
  No request beyond the address space succeeds: sizes are 64-bit. It bounds the length of every
  chain that is built in memory.
\<close>

definition alloc_fits :: "alloc \<Rightarrow> bool" where
  "alloc_fits al \<longleftrightarrow> (\<forall>n. al n \<longrightarrow> n < 2 ^ 64)"

definition alloc_64 :: alloc where
  "alloc_64 n = (n < 2 ^ 64)"

lemma alloc_fits_64 [simp]: "alloc_fits alloc_64"
  by (simp add: alloc_fits_def alloc_64_def)

section \<open>Collections of facts\<close>

named_theorems cstring_simps \<open>evaluation rules of the C string functions\<close>
named_theorems wf_intros \<open>introduction rules of the well-formedness predicates\<close>
named_theorems keeps_chain \<open>steps that leave a chain as it is or extend it by a valid block\<close>

section \<open>Lists\<close>

lemma takeWhile_neq_append [simp]:
  "c \<notin> set xs \<Longrightarrow> takeWhile (\<lambda>x. x \<noteq> c) (xs @ c # ys) = xs"
  by (induction xs) auto

lemma takeWhile_neq_id [simp]: "c \<notin> set xs \<Longrightarrow> takeWhile (\<lambda>x. x \<noteq> c) xs = xs"
  by (induction xs) auto

lemma takeWhile_all_append_stop:
  "\<forall>x\<in>set xs. P x \<Longrightarrow> ys = [] \<or> \<not> P (hd ys) \<Longrightarrow> takeWhile P (xs @ ys) = xs"
  by (cases ys) (auto simp: takeWhile_append2)

lemma dropWhile_hd_stop: "xs = [] \<or> \<not> P (hd xs) \<Longrightarrow> dropWhile P xs = xs"
  by (cases xs) auto

lemma last_in_drop: "n < length xs \<Longrightarrow> last (drop n xs) = last xs"
  by (simp add: last_drop)

lemma nth_append_fst: "i < length xs \<Longrightarrow> (xs @ ys) ! i = xs ! i"
  by (simp add: nth_append)

lemma append_eq_same_length:
  "length a = length c \<Longrightarrow> a @ b = c @ d \<longleftrightarrow> a = c \<and> b = d"
  by simp

text \<open>The first position, counted from \<open>i\<close>, of an element with a property: a linear search.\<close>

fun find_position :: "('a \<Rightarrow> bool) \<Rightarrow> nat \<Rightarrow> 'a list \<Rightarrow> nat option" where
  "find_position P i [] = None"
| "find_position P i (x # xs) = (if P x then Some i else find_position P (Suc i) xs)"

lemma find_position_Some:
  "find_position P k xs = Some i \<longleftrightarrow>
     k \<le> i \<and> i < k + length xs \<and> P (xs ! (i - k)) \<and> (\<forall>j<i - k. \<not> P (xs ! j))"
proof (induction xs arbitrary: k)
  case (Cons x xs)
  show ?case
  proof (cases "P x")
    case True
    have "k = i" if "k \<le> i" "\<forall>j<i - k. \<not> P ((x # xs) ! j)"
    proof (rule ccontr)
      assume "k \<noteq> i"
      with that(1) have "0 < i - k" by simp
      with that(2) True show False by fastforce
    qed
    with True show ?thesis by auto
  next
    case False
    have "(k \<le> i \<and> i < k + length (x # xs) \<and> P ((x # xs) ! (i - k)) \<and> (\<forall>j<i - k. \<not> P ((x # xs) ! j))) \<longleftrightarrow>
      (Suc k \<le> i \<and> i < Suc k + length xs \<and> P (xs ! (i - Suc k)) \<and> (\<forall>j<i - Suc k. \<not> P (xs ! j)))"
    proof (cases "i \<le> k")
      case True
      then show ?thesis using False by (cases "i = k") auto
    next
      case gt: False
      then obtain d where "i - k = Suc d" "i - Suc k = d" by (metis Suc_diff_Suc not_le)
      then show ?thesis using gt False by (auto simp: All_less_Suc2)
    qed
    then show ?thesis using Cons.IH [of "Suc k"] False by simp
  qed
qed auto

lemma find_position_None: "find_position P k xs = None \<longleftrightarrow> (\<forall>x\<in>set xs. \<not> P x)"
  by (induction xs arbitrary: k) auto

lemma find_position_append:
  "find_position P k (xs @ ys) =
     (case find_position P k xs of Some i \<Rightarrow> Some i | None \<Rightarrow> find_position P (k + length xs) ys)"
  by (induction xs arbitrary: k) (auto split: option.splits)

section \<open>Words\<close>

lemma unat_u64_bound: "unat (w :: u64) < 2 ^ 64"
  using unsigned_less [of w, where ?'a = nat] by simp

lemma unat_of_nat_u64: "n < 2 ^ 64 \<Longrightarrow> unat (of_nat n :: u64) = n"
  by (simp add: unat_of_nat)

lemma word_of_nat_inj_u64:
  "m < 2 ^ 64 \<Longrightarrow> n < 2 ^ 64 \<Longrightarrow> (of_nat m :: u64) = of_nat n \<longleftrightarrow> m = n"
  by (metis unat_of_nat_u64)

end
