(* ===== verification/CLib.thy ===== *)
theory CLib
  imports Prelude
begin

text \<open>
  The functions of the C standard library that the sources call on strings and numbers, as far as
  the sources use them: \<open>strlen\<close> is \<open>length\<close>, \<open>strchr\<close>, \<open>strrchr\<close>, \<open>strstr\<close>, \<open>strcspn\<close>, the
  scanners \<open>strtol\<close> and \<open>strtoull\<close>, and the conversions of \<open>printf\<close>. A C string is a list of
  characters without the terminating NUL; \<open>cstr\<close> reads the C string at the start of a buffer.
  Locale-dependent functions are those of the C locale, since no program calls \<open>setlocale\<close>.
\<close>

section \<open>C strings\<close>

definition is_cstring :: "string \<Rightarrow> bool" where
  "is_cstring s \<longleftrightarrow> CHR 0x00 \<notin> set s"

definition cstr :: "char list \<Rightarrow> string" where
  "cstr buf = takeWhile (\<lambda>c. c \<noteq> CHR 0x00) buf"

fun strchr :: "string \<Rightarrow> char \<Rightarrow> nat option" where
  "strchr [] c = None"
| "strchr (x # xs) c = (if x = c then Some 0 else map_option Suc (strchr xs c))"

definition strrchr :: "string \<Rightarrow> char \<Rightarrow> nat option" where
  "strrchr s c = map_option (\<lambda>i. length s - 1 - i) (strchr (rev s) c)"

fun strstr :: "string \<Rightarrow> string \<Rightarrow> nat option" where
  "strstr [] p = (if p = [] then Some 0 else None)"
| "strstr (x # xs) p =
     (if take (length p) (x # xs) = p then Some 0 else map_option Suc (strstr xs p))"

definition strcspn :: "string \<Rightarrow> string \<Rightarrow> nat" where
  "strcspn s reject = length (takeWhile (\<lambda>c. c \<notin> set reject) s)"

definition strncmp_eq :: "string \<Rightarrow> string \<Rightarrow> nat \<Rightarrow> bool" where
  "strncmp_eq a b n \<longleftrightarrow> take n a = take n b"

section \<open>Character classes of the C locale\<close>

definition code :: "char \<Rightarrow> nat" where
  "code c = of_char c"

definition c_isdigit :: "char \<Rightarrow> bool" where
  "c_isdigit c \<longleftrightarrow> 48 \<le> code c \<and> code c \<le> 57"

definition c_isalpha :: "char \<Rightarrow> bool" where
  "c_isalpha c \<longleftrightarrow> (65 \<le> code c \<and> code c \<le> 90) \<or> (97 \<le> code c \<and> code c \<le> 122)"

definition c_isalnum :: "char \<Rightarrow> bool" where
  "c_isalnum c \<longleftrightarrow> c_isdigit c \<or> c_isalpha c"

definition c_isspace :: "char \<Rightarrow> bool" where
  "c_isspace c \<longleftrightarrow> code c = 32 \<or> (9 \<le> code c \<and> code c \<le> 13)"

definition c_islower_hex :: "char \<Rightarrow> bool" where
  "c_islower_hex c \<longleftrightarrow> c_isdigit c \<or> (97 \<le> code c \<and> code c \<le> 102)"

section \<open>Reading numbers\<close>

text \<open>The value of a digit in bases up to 16, \<open>None\<close> for a character that is no digit.\<close>

definition digit_val :: "char \<Rightarrow> nat option" where
  "digit_val c =
     (if 48 \<le> code c \<and> code c \<le> 57 then Some (code c - 48)
      else if 97 \<le> code c \<and> code c \<le> 102 then Some (code c - 87)
      else if 65 \<le> code c \<and> code c \<le> 70 then Some (code c - 55)
      else None)"

definition is_base_digit :: "nat \<Rightarrow> char \<Rightarrow> bool" where
  "is_base_digit base c = (case digit_val c of None \<Rightarrow> False | Some v \<Rightarrow> v < base)"

definition digits_val :: "nat \<Rightarrow> string \<Rightarrow> nat" where
  "digits_val base ds = foldl (\<lambda>a c. a * base + the (digit_val c)) 0 ds"

definition scan_sign :: "string \<Rightarrow> bool \<times> string" where
  "scan_sign s =
     (case s of
        [] \<Rightarrow> (False, s)
      | c # r \<Rightarrow> (if c = CHR ''-'' then (True, r)
                  else if c = CHR ''+'' then (False, r) else (False, s)))"

text \<open>In base 16 a prefix 0x or 0X is skipped when a hexadecimal digit follows it.\<close>

definition skip_0x :: "nat \<Rightarrow> string \<Rightarrow> string" where
  "skip_0x base s =
     (case s of
        a # b # c # r \<Rightarrow>
          (if base = 16 \<and> a = CHR ''0'' \<and> (b = CHR ''x'' \<or> b = CHR ''X'') \<and> is_base_digit 16 c
           then c # r else s)
      | _ \<Rightarrow> s)"

text \<open>
  The common scanner of \<open>strtol\<close> and \<open>strtoull\<close>: leading white space, a sign, the digits. \<open>None\<close>
  says that no conversion is performed; otherwise the sign, the magnitude and the rest.
\<close>

definition strto_scan :: "nat \<Rightarrow> string \<Rightarrow> (bool \<times> nat \<times> string) option" where
  "strto_scan base s =
     (let (neg, r) = scan_sign (dropWhile c_isspace s);
          body = skip_0x base r;
          ds = takeWhile (is_base_digit base) body
      in if ds = [] then None
         else Some (neg, digits_val base ds, drop (length ds) body))"

text \<open>
  \<open>strtoull\<close> returns the value, the rest of the string (where \<open>end\<close> points) and whether \<open>errno\<close>
  became \<open>ERANGE\<close>. Without a conversion the rest is the whole string. A minus sign negates modulo
  \<open>2 ^ 64\<close>.
\<close>

definition strtoull :: "nat \<Rightarrow> string \<Rightarrow> u64 \<times> string \<times> bool" where
  "strtoull base s =
     (case strto_scan base s of
        None \<Rightarrow> (0, s, False)
      | Some (neg, v, rest) \<Rightarrow>
          (if 2 ^ 64 \<le> v then (- 1, rest, True)
           else (if neg then - of_nat v else of_nat v, rest, False)))"

text \<open>\<open>strtol\<close> on a 64-bit \<open>long\<close>, with saturation and \<open>ERANGE\<close>.\<close>

definition strtol :: "nat \<Rightarrow> string \<Rightarrow> int \<times> string \<times> bool" where
  "strtol base s =
     (case strto_scan base s of
        None \<Rightarrow> (0, s, False)
      | Some (neg, v, rest) \<Rightarrow>
          (if neg \<and> 2 ^ 63 < v then (- (2 ^ 63), rest, True)
           else if \<not> neg \<and> 2 ^ 63 \<le> v then (2 ^ 63 - 1, rest, True)
           else (if neg then - int v else int v, rest, False)))"

text \<open>\<open>atoi\<close>: the value of \<open>strtol\<close>, converted to a 32-bit \<open>int\<close>.\<close>

definition atoi :: "string \<Rightarrow> int" where
  "atoi s = sint (of_int (fst (strtol 10 s)) :: 32 word)"

section \<open>Printing numbers\<close>

definition digit_char :: "nat \<Rightarrow> char" where
  "digit_char d = ''0123456789abcdef'' ! d"

text \<open>\<open>k\<close> hexadecimal digits of a number, most significant first.\<close>

fun hex_digits :: "nat \<Rightarrow> nat \<Rightarrow> string" where
  "hex_digits 0 n = []"
| "hex_digits (Suc k) n = hex_digits k (n div 16) @ [digit_char (n mod 16)]"

text \<open>The conversion \<^verbatim>\<open>%016llx\<close>: a 64-bit value has at most sixteen digits, so the width is exact.\<close>

definition fmt_016x :: "u64 \<Rightarrow> string" where
  "fmt_016x w = hex_digits 16 (unat w)"

text \<open>The conversions \<^verbatim>\<open>%llu\<close> and \<^verbatim>\<open>%d\<close>.\<close>

fun fmt_u :: "nat \<Rightarrow> string" where
  "fmt_u n = (if n < 10 then [digit_char n] else fmt_u (n div 10) @ [digit_char (n mod 10)])"

declare fmt_u.simps [simp del]

definition fmt_d :: "int \<Rightarrow> string" where
  "fmt_d i = (if i < 0 then CHR ''-'' # fmt_u (nat (- i)) else fmt_u (nat i))"

section \<open>Facts on C strings\<close>

lemma is_cstring_Nil [simp]: "is_cstring []"
  by (simp add: is_cstring_def)

lemma is_cstring_Cons [simp]: "is_cstring (c # s) \<longleftrightarrow> c \<noteq> CHR 0x00 \<and> is_cstring s"
  by (auto simp: is_cstring_def)

lemma is_cstring_append [simp]: "is_cstring (a @ b) \<longleftrightarrow> is_cstring a \<and> is_cstring b"
  by (auto simp: is_cstring_def)

lemma is_cstring_take [simp]: "is_cstring s \<Longrightarrow> is_cstring (take n s)"
  by (auto simp: is_cstring_def dest: in_set_takeD)

lemma is_cstring_drop [simp]: "is_cstring s \<Longrightarrow> is_cstring (drop n s)"
  by (auto simp: is_cstring_def dest: in_set_dropD)

lemma is_cstring_cstr [simp]: "is_cstring (cstr s)"
  by (auto simp: is_cstring_def cstr_def dest: set_takeWhileD)

lemma cstr_id [simp]: "is_cstring s \<Longrightarrow> cstr s = s"
  by (simp add: is_cstring_def cstr_def)

lemma cstr_terminated [simp]: "is_cstring s \<Longrightarrow> cstr (s @ CHR 0x00 # r) = s"
  by (simp add: is_cstring_def cstr_def)

lemma length_cstr_le: "length (cstr s) \<le> length s"
  by (simp add: cstr_def length_takeWhile_le)

lemma set_cstr_subset: "set (cstr s) \<subseteq> set s"
  by (auto simp: cstr_def dest: set_takeWhileD)

lemma strchr_None [simp]: "strchr s c = None \<longleftrightarrow> c \<notin> set s"
  by (induction s) auto

lemma strchr_append [simp]: "c \<notin> set a \<Longrightarrow> strchr (a @ c # b) c = Some (length a)"
  by (induction a) auto

lemma strchr_SomeD:
  "strchr s c = Some i \<Longrightarrow> i < length s \<and> s ! i = c \<and> c \<notin> set (take i s)"
  by (induction s arbitrary: i) (auto split: if_splits)

lemma strchr_Some_split:
  assumes "strchr s c = Some i"
  shows "s = take i s @ c # drop (Suc i) s"
  using strchr_SomeD [OF assms] by (metis id_take_nth_drop)

lemma strstr_SomeD:
  "strstr s p = Some i \<Longrightarrow> i \<le> length s \<and> take (length p) (drop i s) = p"
  by (induction s arbitrary: i) (auto split: if_splits)

lemma strstr_Some_split:
  assumes "strstr s p = Some i"
  shows "s = take i s @ p @ drop (i + length p) s"
proof -
  have "drop i s = p @ drop (length p) (drop i s)"
    using strstr_SomeD [OF assms] by (metis append_take_drop_id)
  then show ?thesis by (metis add.commute append_take_drop_id drop_drop)
qed

lemma strstr_None_no_occurrence: "strstr s p = None \<Longrightarrow> s \<noteq> a @ p @ b"
proof (induction s arbitrary: a)
  case Nil
  then show ?case by (auto split: if_splits)
next
  case (Cons x xs)
  show ?case
  proof (cases a)
    case Nil
    then show ?thesis using Cons.prems by (auto split: if_splits)
  next
    case (Cons y ys)
    with Cons.prems Cons.IH [of ys] show ?thesis by (auto split: if_splits)
  qed
qed

text \<open>The occurrence that \<open>strstr\<close> reports is the first one.\<close>

lemma strstr_first: "strstr s p = Some i \<Longrightarrow> s = a @ p @ b \<Longrightarrow> i \<le> length a"
proof (induction s arbitrary: a i)
  case Nil
  then show ?case by (auto split: if_splits)
next
  case (Cons x xs)
  show ?case
  proof (cases a)
    case Nil
    then have "take (length p) (x # xs) = p" using Cons.prems(2) by simp
    with Cons.prems(1) show ?thesis by (simp only: strstr.simps simp_thms if_True option.inject)
  next
    case (Cons y ys)
    with Cons.prems Cons.IH [of _ ys] show ?thesis by (auto split: if_splits)
  qed
qed

lemma strstr_colons:
  "strstr (a @ '':'') ''::'' = None \<Longrightarrow> strstr (a @ ''::'' @ b) ''::'' = Some (length a)"
proof (induction a)
  case (Cons x xs)
  then show ?case by (cases xs) (auto split: if_splits)
qed simp

lemma strstr_colons_prefix:
  "strstr s ''::'' = Some i \<Longrightarrow> strstr (take i s @ '':'') ''::'' = None"
proof (induction s arbitrary: i)
  case Nil
  then show ?case by simp
next
  case (Cons x xs)
  show ?case
  proof (cases i)
    case 0
    then show ?thesis by simp
  next
    case (Suc k)
    with Cons.prems have k: "strstr xs ''::'' = Some k" and nx: "take 2 (x # xs) \<noteq> ''::''"
      by (auto split: if_splits)
    from k have "xs \<noteq> []" and "k = 0 \<Longrightarrow> hd xs = CHR '':''"
      using strstr_SomeD [OF k] by (cases xs; auto)+
    with nx have "take 2 (x # take k xs @ '':'') \<noteq> ''::''"
      by (cases xs; cases k) auto
    with Suc Cons.IH [OF k] show ?thesis by (simp add: numeral_2_eq_2)
  qed
qed

section \<open>Facts on numbers\<close>

lemma digit_char_in: "d < 16 \<Longrightarrow> d \<in> set [0..<16]"
  by simp

lemma digit_val_digit_char [simp]: "d < 16 \<Longrightarrow> digit_val (digit_char d) = Some d"
proof -
  have "\<forall>d \<in> set [0..<16]. digit_val (digit_char d) = Some d"
    by code_simp
  then show "d < 16 \<Longrightarrow> digit_val (digit_char d) = Some d" using digit_char_in by blast
qed

lemma digit_char_hex [simp]: "d < 16 \<Longrightarrow> c_islower_hex (digit_char d)"
proof -
  have "\<forall>d \<in> set [0..<16]. c_islower_hex (digit_char d)"
    by code_simp
  then show "d < 16 \<Longrightarrow> c_islower_hex (digit_char d)" using digit_char_in by blast
qed

lemma digit_char_digit [simp]: "d < 10 \<Longrightarrow> c_isdigit (digit_char d)"
proof -
  have "\<forall>d \<in> set [0..<10]. c_isdigit (digit_char d)"
    by code_simp
  then show "d < 10 \<Longrightarrow> c_isdigit (digit_char d)" by auto
qed

lemma lower_hex_is_base_digit: "c_islower_hex c \<Longrightarrow> is_base_digit 16 c"
  by (auto simp: c_islower_hex_def c_isdigit_def is_base_digit_def digit_val_def split: option.splits)

lemma isdigit_is_base_digit: "c_isdigit c \<longleftrightarrow> is_base_digit 10 c"
  by (auto simp: c_isdigit_def is_base_digit_def digit_val_def split: option.splits)

lemma digits_val_snoc:
  "digits_val b (ds @ [c]) = digits_val b ds * b + the (digit_val c)"
  by (simp add: digits_val_def)

lemma length_hex_digits [simp]: "length (hex_digits k n) = k"
  by (induction k arbitrary: n) auto

lemma hex_digits_lower: "c \<in> set (hex_digits k n) \<Longrightarrow> c_islower_hex c"
  by (induction k arbitrary: n) auto

lemma digits_val_hex_digits: "digits_val 16 (hex_digits k n) = n mod 16 ^ k"
proof (induction k arbitrary: n)
  case 0
  then show ?case by (simp add: digits_val_def)
next
  case (Suc k)
  have "digits_val 16 (hex_digits (Suc k) n) = (n div 16) mod 16 ^ k * 16 + n mod 16"
    by (simp add: digits_val_snoc Suc.IH)
  also have "\<dots> = n mod 16 ^ Suc k"
    by (metis add.commute mod_mult2_eq mult.commute power_Suc)
  finally show ?case .
qed

lemma length_fmt_016x [simp]: "length (fmt_016x w) = 16"
  by (simp add: fmt_016x_def)

lemma fmt_016x_lower: "c \<in> set (fmt_016x w) \<Longrightarrow> c_islower_hex c"
  by (simp add: fmt_016x_def hex_digits_lower)

lemma digits_val_fmt_016x: "digits_val 16 (fmt_016x w) = unat w"
  using unat_u64_bound [of w] by (simp add: fmt_016x_def digits_val_hex_digits)

lemma fmt_016x_inj: "fmt_016x a = fmt_016x b \<longleftrightarrow> a = b"
  by (metis digits_val_fmt_016x word_unat_eq_iff)

text \<open>What \<open>strtoull\<close> reads back from \<^verbatim>\<open>%016llx\<close> is the printed value.\<close>

lemma separators_not_hex [simp]:
  "\<not> c_islower_hex (CHR ''-'')" "\<not> c_islower_hex (CHR ''+'')" "\<not> c_islower_hex (CHR ''x'')"
  "\<not> c_islower_hex (CHR ''X'')" "\<not> c_islower_hex (CHR 0x00)" "\<not> c_islower_hex (CHR 0x0A)"
  "\<not> c_islower_hex (CHR 0x0D)" "\<not> c_islower_hex (CHR 0x22)" "\<not> c_islower_hex (CHR '':'')"
  "\<not> c_islower_hex (CHR '' '')"
  by (simp_all add: c_islower_hex_def c_isdigit_def code_def)

lemma comma_not_hex [simp]: "\<not> c_islower_hex (CHR '','')"
  by (simp add: c_islower_hex_def c_isdigit_def code_def)

lemma lower_hex_not_space: "c_islower_hex c \<Longrightarrow> \<not> c_isspace c"
  by (auto simp: c_islower_hex_def c_isdigit_def c_isspace_def)

lemma skip_0x_lower:
  assumes "\<forall>c\<in>set s. c_islower_hex c"
  shows "skip_0x b s = s"
  using assms by (auto simp: skip_0x_def split: list.splits)

lemma strto_scan_lower:
  assumes "\<forall>c\<in>set s. c_islower_hex c" "s \<noteq> []"
  shows "strto_scan 16 s = Some (False, digits_val 16 s, [])"
proof -
  obtain c r where s: "s = c # r" using assms(2) by (cases s) auto
  have c: "c_islower_hex c" using assms(1) s by simp
  have "dropWhile c_isspace s = s" and "scan_sign s = (False, s)"
    using lower_hex_not_space [OF c] c s by (auto simp: scan_sign_def)
  moreover have "takeWhile (is_base_digit 16) s = s"
    using assms(1) lower_hex_is_base_digit by (auto simp: takeWhile_eq_all_conv)
  ultimately show ?thesis
    using assms by (simp add: strto_scan_def skip_0x_lower Let_def takeWhile_eq_all_conv [THEN iffD2])
qed

lemma strtoull_fmt_016x: "strtoull 16 (fmt_016x w) = (w, [], False)"
proof -
  have "fmt_016x w \<noteq> []" by (metis length_0_conv length_fmt_016x zero_neq_numeral)
  then have "strto_scan 16 (fmt_016x w) = Some (False, unat w, [])"
    using strto_scan_lower fmt_016x_lower digits_val_fmt_016x by metis
  then show ?thesis
    using unat_u64_bound [of w] by (simp add: strtoull_def)
qed

text \<open>Decimal numbers.\<close>

lemma fmt_u_nonempty [simp]: "fmt_u n \<noteq> []"
  by (subst fmt_u.simps) simp

lemma fmt_u_digits: "c \<in> set (fmt_u n) \<Longrightarrow> c_isdigit c"
proof (induction n rule: fmt_u.induct)
  case (1 n)
  then show ?case
    by (subst (asm) (2) fmt_u.simps) (auto split: if_splits)
qed

lemma digits_val_fmt_u [simp]: "digits_val 10 (fmt_u n) = n"
proof (induction n rule: fmt_u.induct)
  case (1 n)
  show ?case
  proof (cases "n < 10")
    case True
    then show ?thesis by (subst fmt_u.simps) (simp add: digits_val_def)
  next
    case False
    with 1 show ?thesis by (subst fmt_u.simps) (simp add: digits_val_snoc)
  qed
qed

lemma fmt_u_inj: "fmt_u m = fmt_u n \<longleftrightarrow> m = n"
  by (metis digits_val_fmt_u)

lemma isdigit_first:
  assumes "c_isdigit c"
  shows "\<not> c_isspace c" "c \<noteq> CHR ''-''" "c \<noteq> CHR ''+''" "c \<noteq> CHR 0x00" "c_isalnum c"
  using assms by (auto simp: c_isdigit_def c_isspace_def code_def c_isalnum_def)

lemma skip_0x_10 [simp]: "skip_0x 10 s = s"
  by (simp add: skip_0x_def split: list.splits)

lemma strto_scan_fmt_u:
  assumes "r = [] \<or> \<not> c_isdigit (hd r)"
  shows "strto_scan 10 (fmt_u n @ r) = Some (False, n, r)"
proof -
  obtain c t where s: "fmt_u n = c # t" by (cases "fmt_u n") auto
  have c: "c_isdigit c" using fmt_u_digits [of c n] s by simp
  have "dropWhile c_isspace (fmt_u n @ r) = fmt_u n @ r" "scan_sign (fmt_u n @ r) = (False, fmt_u n @ r)"
    using isdigit_first [OF c] s by (auto simp: scan_sign_def)
  moreover have "takeWhile (is_base_digit 10) (fmt_u n @ r) = fmt_u n"
    using assms fmt_u_digits isdigit_is_base_digit by (intro takeWhile_all_append_stop) auto
  ultimately show ?thesis by (simp add: strto_scan_def)
qed

lemma is_cstring_digits: "\<forall>c\<in>set s. c_isdigit c \<Longrightarrow> is_cstring s"
  using isdigit_first(4) by (auto simp: is_cstring_def)

lemma is_cstring_fmt_u [simp]: "is_cstring (fmt_u n)"
  using fmt_u_digits by (intro is_cstring_digits) blast

text \<open>The length of a decimal number, and reading it with \<open>strtol\<close>.\<close>

lemma length_fmt_u: "0 < k \<Longrightarrow> n < 10 ^ k \<Longrightarrow> length (fmt_u n) \<le> k"
proof (induction k arbitrary: n)
  case (Suc k)
  show ?case
  proof (cases "n < 10")
    case True
    then show ?thesis by (subst fmt_u.simps) simp
  next
    case False
    then have "0 < k" using Suc.prems(2) by (cases k) auto
    moreover have "n div 10 < 10 ^ k" using Suc.prems(2) by (simp add: less_mult_imp_div_less mult.commute)
    ultimately have "length (fmt_u (n div 10)) \<le> k" by (rule Suc.IH)
    then show ?thesis using False by (subst fmt_u.simps) simp
  qed
qed simp

lemma length_fmt_u64: "n < 2 ^ 64 \<Longrightarrow> length (fmt_u n) \<le> 20"
  by (rule length_fmt_u) simp_all

lemma strtol_fmt_u: "n < 2 ^ 63 \<Longrightarrow> strtol 10 (fmt_u n) = (int n, [], False)"
  using strto_scan_fmt_u [of "[]" n] by (simp add: strtol_def)

lemma fmt_d_nat: "fmt_d (int n) = fmt_u n"
  by (simp add: fmt_d_def)

end
