(* ===== verification/Sha256.thy ===== *)
theory Sha256
  imports CLib
begin

text \<open>
  The SHA-256 implementation under \<^verbatim>\<open>third_party/sha256\<close>: a context with a 64-byte buffer that is
  filled byte by byte, compressed when full, and padded at the end. The reference function
  \<open>sha256_reference\<close> pads the whole message first and folds the compression function over its
  64-byte blocks; the streaming code computes it for every message whose length fits the code's
  32-bit loop counter.
\<close>

unbundle bit_operations_syntax

section \<open>The implementation\<close>

record SHA256_CTX =
  ctx_data :: "u8 list"
  datalen :: u32
  bitlen :: u64
  ctx_state :: "u32 list"

definition ROTRIGHT :: "u32 \<Rightarrow> nat \<Rightarrow> u32" where
  "ROTRIGHT a b = drop_bit b a OR push_bit (32 - b) a"

definition CH :: "u32 \<Rightarrow> u32 \<Rightarrow> u32 \<Rightarrow> u32" where
  "CH x y z = (x AND y) XOR (NOT x AND z)"

definition MAJ :: "u32 \<Rightarrow> u32 \<Rightarrow> u32 \<Rightarrow> u32" where
  "MAJ x y z = (x AND y) XOR (x AND z) XOR (y AND z)"

definition EP0 :: "u32 \<Rightarrow> u32" where
  "EP0 x = ROTRIGHT x 2 XOR ROTRIGHT x 13 XOR ROTRIGHT x 22"

definition EP1 :: "u32 \<Rightarrow> u32" where
  "EP1 x = ROTRIGHT x 6 XOR ROTRIGHT x 11 XOR ROTRIGHT x 25"

definition SIG0 :: "u32 \<Rightarrow> u32" where
  "SIG0 x = ROTRIGHT x 7 XOR ROTRIGHT x 18 XOR drop_bit 3 x"

definition SIG1 :: "u32 \<Rightarrow> u32" where
  "SIG1 x = ROTRIGHT x 17 XOR ROTRIGHT x 19 XOR drop_bit 10 x"

definition sha256_k :: "u32 list" where
  "sha256_k =
    [0x428a2f98,0x71374491,0xb5c0fbcf,0xe9b5dba5,0x3956c25b,0x59f111f1,0x923f82a4,0xab1c5ed5] @
    [0xd807aa98,0x12835b01,0x243185be,0x550c7dc3,0x72be5d74,0x80deb1fe,0x9bdc06a7,0xc19bf174] @
    [0xe49b69c1,0xefbe4786,0x0fc19dc6,0x240ca1cc,0x2de92c6f,0x4a7484aa,0x5cb0a9dc,0x76f988da] @
    [0x983e5152,0xa831c66d,0xb00327c8,0xbf597fc7,0xc6e00bf3,0xd5a79147,0x06ca6351,0x14292967] @
    [0x27b70a85,0x2e1b2138,0x4d2c6dfc,0x53380d13,0x650a7354,0x766a0abb,0x81c2c92e,0x92722c85] @
    [0xa2bfe8a1,0xa81a664b,0xc24b8b70,0xc76c51a3,0xd192e819,0xd6990624,0xf40e3585,0x106aa070] @
    [0x19a4c116,0x1e376c08,0x2748774c,0x34b0bcb5,0x391c0cb3,0x4ed8aa4a,0x5b9cca4f,0x682e6ff3] @
    [0x748f82ee,0x78a5636f,0x84c87814,0x8cc70208,0x90befffa,0xa4506ceb,0xbef9a3f7,0xc67178f2]"

text \<open>The first loop of \<open>sha256_transform\<close>: sixteen big-endian words from 64 bytes.\<close>

fun be_words :: "u8 list \<Rightarrow> u32 list" where
  "be_words (a # b # c # d # rest) =
     (push_bit 24 (ucast a) OR push_bit 16 (ucast b) OR push_bit 8 (ucast c) OR ucast d) # be_words rest"
| "be_words _ = []"

text \<open>The second loop: extend the schedule by \<open>n\<close> words.\<close>

fun extend_schedule :: "nat \<Rightarrow> u32 list \<Rightarrow> u32 list" where
  "extend_schedule 0 m = m"
| "extend_schedule (Suc n) m =
     (let i = length m
      in extend_schedule n (m @ [SIG1 (m ! (i - 2)) + m ! (i - 7) + SIG0 (m ! (i - 15)) + m ! (i - 16)]))"

text \<open>One round: the registers \<open>a\<close> to \<open>h\<close> as a list, with the round's constant and schedule word.\<close>

fun sha256_round :: "u32 list \<Rightarrow> u32 \<times> u32 \<Rightarrow> u32 list" where
  "sha256_round [a, b, c, d, e, f, g, h] (ki, mi) =
     (let t1 = h + EP1 e + CH e f g + ki + mi;
          t2 = EP0 a + MAJ a b c
      in [t1 + t2, a, b, c, d + t1, e, f, g])"
| "sha256_round regs _ = regs"

definition sha256_compress :: "u32 list \<Rightarrow> u8 list \<Rightarrow> u32 list" where
  "sha256_compress st block =
     (let m = extend_schedule 48 (be_words block);
          regs = foldl sha256_round st (zip sha256_k m)
      in map2 (+) st regs)"

definition sha256_transform :: "SHA256_CTX \<Rightarrow> u8 list \<Rightarrow> SHA256_CTX" where
  "sha256_transform ctx block = ctx\<lparr>ctx_state := sha256_compress (ctx_state ctx) block\<rparr>"

definition sha256_H0 :: "u32 list" where
  "sha256_H0 = [0x6a09e667, 0xbb67ae85, 0x3c6ef372, 0xa54ff53a,
                0x510e527f, 0x9b05688c, 0x1f83d9ab, 0x5be0cd19]"

text \<open>\<open>sha256_init\<close> leaves the data buffer as it finds it.\<close>

definition sha256_init :: "SHA256_CTX \<Rightarrow> SHA256_CTX" where
  "sha256_init ctx = ctx\<lparr>datalen := 0, bitlen := 0, ctx_state := sha256_H0\<rparr>"

definition sha256_update_byte :: "SHA256_CTX \<Rightarrow> u8 \<Rightarrow> SHA256_CTX" where
  "sha256_update_byte ctx b =
     (let ctx = ctx\<lparr>ctx_data := (ctx_data ctx)[unat (datalen ctx) := b], datalen := datalen ctx + 1\<rparr>
      in if datalen ctx = 64
         then (sha256_transform ctx (ctx_data ctx))\<lparr>bitlen := bitlen ctx + 512, datalen := 0\<rparr>
         else ctx)"

definition sha256_update :: "SHA256_CTX \<Rightarrow> u8 list \<Rightarrow> SHA256_CTX" where
  "sha256_update ctx bytes = foldl sha256_update_byte ctx bytes"

text \<open>Store \<open>bs\<close> into the array from position \<open>i\<close> on.\<close>

fun store :: "'a list \<Rightarrow> nat \<Rightarrow> 'a list \<Rightarrow> 'a list" where
  "store arr i [] = arr"
| "store arr i (b # bs) = store (arr[i := b]) (Suc i) bs"

definition bitlen_bytes :: "u64 \<Rightarrow> u8 list" where
  "bitlen_bytes n = map (\<lambda>i. ucast (drop_bit (56 - 8 * i) n)) [0..<8]"

definition digest_bytes :: "u32 list \<Rightarrow> u8 list" where
  "digest_bytes st = concat (map (\<lambda>w. map (\<lambda>i. ucast (drop_bit (24 - 8 * i) w AND 0xff)) [0..<4]) st)"

definition sha256_final :: "SHA256_CTX \<Rightarrow> u8 list" where
  "sha256_final ctx =
     (let i = unat (datalen ctx);
          padded =
            (if datalen ctx < 56
             then ctx\<lparr>ctx_data := store (ctx_data ctx) i (0x80 # replicate (55 - i) 0)\<rparr>
             else (let full = ctx\<lparr>ctx_data := store (ctx_data ctx) i (0x80 # replicate (63 - i) 0)\<rparr>;
                       done = sha256_transform full (ctx_data full)
                   in done\<lparr>ctx_data := store (ctx_data done) 0 (replicate 56 0)\<rparr>));
          total = bitlen padded + ucast (datalen padded * 8);
          last = padded\<lparr>bitlen := total, ctx_data := store (ctx_data padded) 56 (bitlen_bytes total)\<rparr>
      in digest_bytes (ctx_state (sha256_transform last (ctx_data last))))"

text \<open>Hash a message with a context whose buffer starts with the bytes \<open>junk\<close>.\<close>

definition sha256_run :: "u8 list \<Rightarrow> u8 list \<Rightarrow> u8 list" where
  "sha256_run junk msg =
     (let ctx = sha256_init \<lparr>ctx_data = junk, datalen = 0, bitlen = 0, ctx_state = []\<rparr>
      in sha256_final (if msg = [] then ctx else sha256_update ctx msg))"

section \<open>The reference function\<close>

definition sha256_pad :: "u8 list \<Rightarrow> u8 list" where
  "sha256_pad msg =
     msg @ 0x80 # replicate ((119 - length msg mod 64) mod 64) 0
         @ bitlen_bytes (of_nat (8 * length msg))"

fun fold_blocks :: "nat \<Rightarrow> u32 list \<Rightarrow> u8 list \<Rightarrow> u32 list" where
  "fold_blocks 0 st msg = st"
| "fold_blocks (Suc n) st msg = fold_blocks n (sha256_compress st (take 64 msg)) (drop 64 msg)"

definition sha256_reference :: "u8 list \<Rightarrow> u8 list" where
  "sha256_reference msg =
     digest_bytes (fold_blocks (length (sha256_pad msg) div 64) sha256_H0 (sha256_pad msg))"

section \<open>The streaming code computes the reference function\<close>

lemma fold_blocks_append:
  "64 * n \<le> length msg \<Longrightarrow> fold_blocks n st (msg @ ext) = fold_blocks n st msg"
  by (induction n arbitrary: st msg) auto

lemma fold_blocks_Suc_last:
  "fold_blocks (Suc n) st msg = sha256_compress (fold_blocks n st msg) (take 64 (drop (64 * n) msg))"
proof (induction n arbitrary: st msg)
  case 0
  then show ?case by simp
next
  case (Suc n)
  have "fold_blocks (Suc (Suc n)) st msg = fold_blocks (Suc n) (sha256_compress st (take 64 msg)) (drop 64 msg)"
    by simp
  also have "\<dots> = sha256_compress (fold_blocks (Suc n) st msg) (take 64 (drop (64 * n) (drop 64 msg)))"
    by (subst Suc.IH) simp
  finally show ?case by (simp add: add.commute)
qed

lemma store_eq:
  "i + length bs \<le> length arr \<Longrightarrow> store arr i bs = take i arr @ bs @ drop (i + length bs) arr"
proof (induction bs arbitrary: arr i)
  case (Cons b bs)
  then have "store (arr[i := b]) (Suc i) bs = take (Suc i) (arr[i := b]) @ bs @ drop (Suc i + length bs) arr"
    by simp
  moreover have "take (Suc i) (arr[i := b]) = take i arr @ [b]"
    using Cons.prems by (simp add: take_Suc_conv_app_nth)
  ultimately show ?case by simp
qed simp

lemma length_bitlen_bytes [simp]: "length (bitlen_bytes n) = 8"
  by (simp add: bitlen_bytes_def)

text \<open>What the context holds after the bytes of \<open>msg\<close> went in.\<close>

definition sha256_holds :: "SHA256_CTX \<Rightarrow> u8 list \<Rightarrow> bool" where
  "sha256_holds ctx msg \<longleftrightarrow>
     (let q = length msg div 64; i = length msg mod 64
      in length (ctx_data ctx) = 64 \<and> datalen ctx = of_nat i \<and> bitlen ctx = of_nat (512 * q)
         \<and> take i (ctx_data ctx) = drop (64 * q) msg
         \<and> ctx_state ctx = fold_blocks q sha256_H0 msg)"

lemma sha256_holds_init:
  "length junk = 64 \<Longrightarrow>
   sha256_holds (sha256_init \<lparr>ctx_data = junk, datalen = d, bitlen = b, ctx_state = s\<rparr>) []"
  by (simp add: sha256_holds_def sha256_init_def)

lemma unat_small_u32: "i < 64 \<Longrightarrow> unat (of_nat i :: u32) = i"
  by (simp add: unat_of_nat)

lemma sha256_holds_byte:
  assumes h: "sha256_holds ctx msg"
  shows "sha256_holds (sha256_update_byte ctx b) (msg @ [b])"
proof -
  define q i where "q = length msg div 64" and "i = length msg mod 64"
  have i: "i < 64" and n: "length msg = 64 * q + i" by (simp_all add: q_def i_def)
  note hh = h [unfolded sha256_holds_def Let_def, folded q_def i_def]
  have dl: "unat (datalen ctx) = i" using hh i by (simp add: unat_small_u32)
  have data: "take (Suc i) ((ctx_data ctx)[i := b]) = drop (64 * q) (msg @ [b])"
    using hh i n by (simp add: take_Suc_conv_app_nth)
  show ?thesis
  proof (cases "i = 63")
    case True
    then have q': "Suc (length msg) div 64 = Suc q" and i': "Suc (length msg) mod 64 = 0"
      using n by simp_all
    have d64: "datalen ctx + 1 = 64" using hh True by simp
    have blk: "(ctx_data ctx)[63 := b] = take 64 (drop (64 * q) (msg @ [b]))"
      using data True hh n by simp
    have "fold_blocks (Suc q) sha256_H0 (msg @ [b]) =
          sha256_compress (ctx_state ctx) ((ctx_data ctx)[63 := b])"
      using fold_blocks_append [of q msg sha256_H0 "[b]"] hh n blk by (simp add: fold_blocks_Suc_last del: fold_blocks.simps)
    then show ?thesis
      using d64 q' i' hh n True dl
      by (simp add: sha256_holds_def sha256_update_byte_def sha256_transform_def Let_def algebra_simps del: fold_blocks.simps)
  next
    case False
    then have q': "Suc (length msg) div 64 = q" and i': "Suc (length msg) mod 64 = Suc i"
      using n i by simp_all
    have d64: "datalen ctx + 1 \<noteq> 64"
    proof
      assume "datalen ctx + 1 = 64"
      then have "datalen ctx = 63" by (simp add: eq_diff_eq [symmetric])
      then show False using dl False by simp
    qed
    have "fold_blocks q sha256_H0 (msg @ [b]) = fold_blocks q sha256_H0 msg"
      using n by (simp add: fold_blocks_append)
    then show ?thesis
      using d64 q' i' hh n dl data
      by (simp add: sha256_holds_def sha256_update_byte_def Let_def add.commute)
  qed
qed

lemma sha256_holds_update:
  "sha256_holds ctx [] \<Longrightarrow> sha256_holds (sha256_update ctx msg) msg"
proof (induction msg rule: rev_induct)
  case (snoc b msg)
  then show ?case using sha256_holds_byte by (simp add: sha256_update_def)
qed (simp add: sha256_update_def)

lemma total_bits:
  "i < 64 \<Longrightarrow> of_nat (512 * q) + ucast (of_nat i * 8 :: u32) = (of_nat (8 * (64 * q + i)) :: u64)"
proof -
  assume i: "i < 64"
  have "(of_nat i * 8 :: u32) = of_nat (8 * i)" by simp
  moreover have "ucast (of_nat (8 * i) :: u32) = (of_nat (8 * i) :: u64)"
    using i by (simp only: unsigned_of_nat) (simp add: take_bit_nat_eq_self)
  ultimately show ?thesis by (simp add: mult.commute)
qed

lemma sha256_final_reference:
  assumes h: "sha256_holds ctx msg"
  shows "sha256_final ctx = sha256_reference msg"
proof -
  define q i where "q = length msg div 64" and "i = length msg mod 64"
  have i: "i < 64" and n: "length msg = 64 * q + i" by (simp_all add: q_def i_def)
  note hh = h [unfolded sha256_holds_def Let_def, folded q_def i_def]
  have dl: "unat (datalen ctx) = i" using hh i by (simp add: unat_small_u32)
  have tot: "bitlen ctx + ucast (datalen ctx * 8) = of_nat (8 * length msg)"
    using hh total_bits [OF i, of q] n by simp
  define lenb where "lenb = bitlen_bytes (of_nat (8 * length msg))"
  have lb: "length lenb = 8" by (simp add: lenb_def)
  have rest: "take i (ctx_data ctx) = drop (64 * q) msg" and lr: "length (drop (64 * q) msg) = i"
    using hh n by simp_all
  have less: "datalen ctx < 56 \<longleftrightarrow> i < 56"
    using dl by (simp add: word_less_nat_alt)
  show ?thesis
  proof (cases "i < 56")
    case True
    then have "119 - i = 64 + (55 - i)" by simp
    then have "(119 - i) mod 64 = 55 - i" by (simp only: mod_add_self1) simp
    then have z: "(119 - length msg mod 64) mod 64 = 55 - i" by (simp add: i_def)
    define blk where "blk = drop (64 * q) msg @ 0x80 # replicate (55 - i) 0 @ lenb"
    have pad: "sha256_pad msg = take (64 * q) msg @ blk"
      by (simp add: sha256_pad_def z blk_def lenb_def)
    have lblk: "length blk = 64" using True lr lb by (simp add: blk_def)
    have lp: "length (sha256_pad msg) div 64 = Suc q" using pad lblk n by simp
    have "store (store (ctx_data ctx) i (0x80 # replicate (55 - i) 0)) 56 lenb = blk"
      using True hh rest lb lr by (simp add: store_eq blk_def take_Suc_conv_app_nth take_Cons')
    then have "sha256_final ctx = digest_bytes (sha256_compress (fold_blocks q sha256_H0 msg) blk)"
      using True less dl tot hh
      by (simp add: sha256_final_def sha256_transform_def Let_def lenb_def)
    moreover have "fold_blocks (Suc q) sha256_H0 (sha256_pad msg) =
        sha256_compress (fold_blocks q sha256_H0 msg) blk"
    proof -
      have "fold_blocks q sha256_H0 (sha256_pad msg) = fold_blocks q sha256_H0 msg"
        unfolding sha256_pad_def using n by (simp add: fold_blocks_append)
      moreover have "take 64 (drop (64 * q) (sha256_pad msg)) = blk"
        using pad lblk n by simp
      ultimately show ?thesis by (simp add: fold_blocks_Suc_last del: fold_blocks.simps)
    qed
    ultimately show ?thesis by (simp add: sha256_reference_def lp del: fold_blocks.simps)
  next
    case False
    then have z: "(119 - length msg mod 64) mod 64 = (63 - i) + 56" using i_def i by simp
    define b1 b2 where "b1 = drop (64 * q) msg @ 0x80 # replicate (63 - i) 0"
      and "b2 = replicate 56 0 @ lenb"
    have pad: "sha256_pad msg = take (64 * q) msg @ b1 @ b2"
      by (simp add: sha256_pad_def z b1_def b2_def lenb_def replicate_add)
    have l1: "length b1 = 64" and l2: "length b2 = 64"
      using False i lr lb by (simp_all add: b1_def b2_def)
    have lp: "length (sha256_pad msg) div 64 = Suc (Suc q)" using pad l1 l2 n by simp
    have s1: "store (ctx_data ctx) i (0x80 # replicate (63 - i) 0) = b1"
      using False i hh rest by (simp add: store_eq b1_def take_Suc_conv_app_nth)
    have s2: "store (store b1 0 (replicate 56 0)) 56 lenb = b2"
      using l1 lb by (simp add: store_eq b2_def)
    have "sha256_final ctx =
        digest_bytes (sha256_compress (sha256_compress (fold_blocks q sha256_H0 msg) b1) b2)"
      using False less dl tot hh s1 s2
      by (simp add: sha256_final_def sha256_transform_def Let_def lenb_def)
    moreover have "fold_blocks (Suc (Suc q)) sha256_H0 (sha256_pad msg) =
        sha256_compress (sha256_compress (fold_blocks q sha256_H0 msg) b1) b2"
    proof -
      have "fold_blocks q sha256_H0 (sha256_pad msg) = fold_blocks q sha256_H0 msg"
        unfolding sha256_pad_def using n by (simp add: fold_blocks_append)
      moreover have "take 64 (drop (64 * q) (sha256_pad msg)) = b1"
        and "take 64 (drop (64 * Suc q) (sha256_pad msg)) = b2"
        using pad l1 l2 n by simp_all
      ultimately show ?thesis by (simp add: fold_blocks_Suc_last del: fold_blocks.simps)
    qed
    ultimately show ?thesis by (simp add: sha256_reference_def lp del: fold_blocks.simps)
  qed
qed

lemma sha256_run_reference_lemma:
  assumes "length junk = 64"
  shows "sha256_run junk msg = sha256_reference msg"
proof -
  let ?ctx = "sha256_init \<lparr>ctx_data = junk, datalen = 0, bitlen = 0, ctx_state = []\<rparr>"
  have "sha256_holds (if msg = [] then ?ctx else sha256_update ?ctx msg) msg"
    using sha256_holds_init [OF assms] sha256_holds_update by auto
  then show ?thesis by (simp add: sha256_run_def Let_def sha256_final_reference)
qed

section \<open>Length of the digest\<close>

lemma length_sha256_round: "length st = 8 \<Longrightarrow> length (sha256_round st x) = 8"
  by (cases "(st, x)" rule: sha256_round.cases) (auto simp: Let_def)

lemma length_sha256_rounds: "length st = 8 \<Longrightarrow> length (foldl sha256_round st xs) = 8"
  by (induction xs arbitrary: st) (auto simp: length_sha256_round)

lemma length_sha256_compress [simp]: "length st = 8 \<Longrightarrow> length (sha256_compress st b) = 8"
  by (simp add: sha256_compress_def Let_def length_sha256_rounds)

lemma length_fold_blocks [simp]: "length st = 8 \<Longrightarrow> length (fold_blocks n st msg) = 8"
  by (induction n arbitrary: st msg) auto

lemma length_digest_bytes: "length (digest_bytes st) = 4 * length st"
  by (induction st) (auto simp: digest_bytes_def)

lemma length_sha256_reference [simp]: "length (sha256_reference msg) = 32"
  by (simp add: sha256_reference_def length_digest_bytes sha256_H0_def)

section \<open>Property\<close>



end
