(* ===== verification/Errors.thy ===== *)
theory Errors
  imports CLib
begin

text \<open>
  The error codes shared by every component (\<^verbatim>\<open>include/errors.h\<close>) and their texts
  (\<^verbatim>\<open>common/errors.c\<close>). A function that only reports a status returns a \<open>project_error_t\<close>; one
  that also produces a value returns \<open>project_error_t + 'a\<close>, with the error on the left.
\<close>

datatype project_error_t =
    PROJECT_OK
  | ERR_INVALID_ARGUMENT
  | ERR_INVALID_TRANSACTION
  | ERR_INVALID_BLOCK
  | ERR_INVALID_BLOCKCHAIN
  | ERR_MEMORY_ALLOCATION
  | ERR_FILE_OPEN
  | ERR_FILE_READ
  | ERR_FILE_WRITE
  | ERR_FILE_FORMAT
  | ERR_CRYPTO
  | ERR_SERIALIZATION
  | ERR_NOT_FOUND
  | ERR_IPC
  | ERR_TIMEOUT
  | ERR_PROCESS
  | ERR_ALREADY_EXISTS

text \<open>The numeric value of an enumerator, as \<^verbatim>\<open>%d\<close> prints it in replies.\<close>

primrec error_code :: "project_error_t \<Rightarrow> int" where
  "error_code PROJECT_OK = 0"
| "error_code ERR_INVALID_ARGUMENT = 1"
| "error_code ERR_INVALID_TRANSACTION = 2"
| "error_code ERR_INVALID_BLOCK = 3"
| "error_code ERR_INVALID_BLOCKCHAIN = 4"
| "error_code ERR_MEMORY_ALLOCATION = 5"
| "error_code ERR_FILE_OPEN = 6"
| "error_code ERR_FILE_READ = 7"
| "error_code ERR_FILE_WRITE = 8"
| "error_code ERR_FILE_FORMAT = 9"
| "error_code ERR_CRYPTO = 10"
| "error_code ERR_SERIALIZATION = 11"
| "error_code ERR_NOT_FOUND = 12"
| "error_code ERR_IPC = 13"
| "error_code ERR_TIMEOUT = 14"
| "error_code ERR_PROCESS = 15"
| "error_code ERR_ALREADY_EXISTS = 16"

text \<open>
  The switch works on the integer that the caller passes, so the default branch is part of the
  model.
\<close>

definition project_error_string :: "int \<Rightarrow> string" where
  "project_error_string e =
     (if e = error_code PROJECT_OK then ''Success''
      else if e = error_code ERR_INVALID_ARGUMENT then ''Invalid argument''
      else if e = error_code ERR_INVALID_TRANSACTION then ''Invalid transaction''
      else if e = error_code ERR_INVALID_BLOCK then ''Invalid block''
      else if e = error_code ERR_INVALID_BLOCKCHAIN then ''Invalid blockchain''
      else if e = error_code ERR_MEMORY_ALLOCATION then ''Memory allocation failed''
      else if e = error_code ERR_FILE_OPEN then ''Unable to open file''
      else if e = error_code ERR_FILE_READ then ''Unable to read file''
      else if e = error_code ERR_FILE_WRITE then ''Unable to write file''
      else if e = error_code ERR_FILE_FORMAT then ''Invalid file format''
      else if e = error_code ERR_CRYPTO then ''Cryptographic operation failed''
      else if e = error_code ERR_SERIALIZATION then ''Serialization failed''
      else if e = error_code ERR_NOT_FOUND then ''Requested element not found''
      else if e = error_code ERR_IPC then ''IPC operation failed''
      else if e = error_code ERR_TIMEOUT then ''Operation timed out''
      else if e = error_code ERR_PROCESS then ''Process operation failed''
      else if e = error_code ERR_ALREADY_EXISTS then ''Resource already exists''
      else ''Unknown project error'')"

lemma error_code_inj: "error_code a = error_code b \<longleftrightarrow> a = b"
  by (cases a; cases b) simp_all

lemma error_code_zero [simp]: "error_code e = 0 \<longleftrightarrow> e = PROJECT_OK"
  using error_code_inj [of e PROJECT_OK] by simp

lemma project_error_string_short: "length (project_error_string e) \<le> 30"
  by (simp add: project_error_string_def)

lemma project_error_string_cstring: "is_cstring (project_error_string e)"
  by (simp add: project_error_string_def)

end
