(* ===== verification/Block.thy ===== *)
theory Block
  imports Errors
begin

text \<open>
  The block structure and its operations (\<^verbatim>\<open>include/block.h\<close>, \<^verbatim>\<open>common/block.c\<close>): construction,
  copying, and the CSV line format used on disk and on the wire. The array of transaction pointers
  with its counter is a list of pointers; the null array is the empty list. The two hash fields are
  the C strings held by the 65-byte arrays.
\<close>

section \<open>Data\<close>

abbreviation SHA256_HEX_LENGTH :: nat where
  "SHA256_HEX_LENGTH \<equiv> 64"

abbreviation MAX_TRANSACTION_LENGTH :: nat where
  "MAX_TRANSACTION_LENGTH \<equiv> 256"

abbreviation MAX_TRANSACTIONS_PER_BLOCK :: nat where
  "MAX_TRANSACTIONS_PER_BLOCK \<equiv> 16"

record block_t =
  index :: u64
  timestamp :: u64
  previous_hash :: string
  merkle_root :: string
  nonce :: u64
  transactions :: "string ptr list"

abbreviation transaction_count :: "block_t \<Rightarrow> nat" where
  "transaction_count b \<equiv> length (transactions b)"

section \<open>Operations\<close>

definition parse_hex_u64 :: "string ptr \<Rightarrow> project_error_t + u64" where
  "parse_hex_u64 text =
     (case text of
        None \<Rightarrow> Inl ERR_INVALID_ARGUMENT
      | Some t \<Rightarrow>
          if length t \<noteq> 16 then Inl ERR_FILE_FORMAT
          else (case strtoull 16 t of
                  (v, rest, erange) \<Rightarrow>
                    if erange \<or> rest = t \<or> rest \<noteq> [] then Inl ERR_FILE_FORMAT else Inr v))"

definition is_lowercase_hex_hash :: "string ptr \<Rightarrow> bool" where
  "is_lowercase_hex_hash hash =
     (case hash of
        None \<Rightarrow> False
      | Some h \<Rightarrow> length h = SHA256_HEX_LENGTH \<and> list_all c_islower_hex h)"

definition block_zero :: block_t where
  "block_zero = \<lparr>index = 0, timestamp = 0, previous_hash = [], merkle_root = [], nonce = 0,
                 transactions = []\<rparr>"

definition block_init :: "block_t ptr \<Rightarrow> project_error_t \<times> block_t ptr" where
  "block_init block =
     (case block of None \<Rightarrow> (ERR_INVALID_ARGUMENT, None) | Some b \<Rightarrow> (PROJECT_OK, Some block_zero))"

definition block_destroy :: "block_t ptr \<Rightarrow> block_t ptr" where
  "block_destroy block =
     (case block of
        None \<Rightarrow> None
      | Some b \<Rightarrow> Some (b\<lparr>transactions := [], index := 0, timestamp := 0, nonce := 0,
                         previous_hash := [], merkle_root := []\<rparr>))"

text \<open>The pointer array is resized to \<open>count + 1\<close> pointers of eight bytes.\<close>

definition block_add_transaction ::
  "alloc \<Rightarrow> block_t ptr \<Rightarrow> string ptr \<Rightarrow> project_error_t \<times> block_t ptr" where
  "block_add_transaction al block transaction =
     (case (block, transaction) of
        (Some b, Some t) \<Rightarrow>
          if length t = 0 \<or> MAX_TRANSACTION_LENGTH \<le> length t
          then (ERR_INVALID_TRANSACTION, block)
          else if MAX_TRANSACTIONS_PER_BLOCK \<le> transaction_count b then (ERR_INVALID_BLOCK, block)
          else if \<not> al (length t + 1) then (ERR_MEMORY_ALLOCATION, block)
          else if \<not> al (8 * (transaction_count b + 1)) then (ERR_MEMORY_ALLOCATION, block)
          else (PROJECT_OK, Some (b\<lparr>transactions := transactions b @ [Some t]\<rparr>))
      | _ \<Rightarrow> (ERR_INVALID_ARGUMENT, block))"

text \<open>The loop that adds transactions until one is refused.\<close>

fun add_transactions ::
  "alloc \<Rightarrow> block_t ptr \<Rightarrow> string ptr list \<Rightarrow> project_error_t \<times> block_t ptr" where
  "add_transactions al block [] = (PROJECT_OK, block)"
| "add_transactions al block (t # ts) =
     (case block_add_transaction al block t of
        (rc, block') \<Rightarrow> if rc = PROJECT_OK then add_transactions al block' ts else (rc, block'))"

definition block_copy ::
  "alloc \<Rightarrow> block_t ptr \<Rightarrow> block_t ptr \<Rightarrow> project_error_t \<times> block_t ptr" where
  "block_copy al destination source =
     (case (destination, source) of
        (Some d, Some s) \<Rightarrow>
          (case block_init (block_destroy destination) of
             (rc, Some d0) \<Rightarrow>
               (case add_transactions al
                       (Some (d0\<lparr>index := index s, timestamp := timestamp s, nonce := nonce s,
                                 previous_hash := previous_hash s, merkle_root := merkle_root s\<rparr>))
                       (transactions s) of
                  (rc, d1) \<Rightarrow> if rc = PROJECT_OK then (PROJECT_OK, d1) else (rc, block_destroy d1))
           | r \<Rightarrow> r)
      | _ \<Rightarrow> (ERR_INVALID_ARGUMENT, destination))"

text \<open>The check of one transaction before it is printed.\<close>

definition csv_transaction_check :: "string ptr \<Rightarrow> project_error_t" where
  "csv_transaction_check transaction =
     (case transaction of
        None \<Rightarrow> ERR_INVALID_TRANSACTION
      | Some t \<Rightarrow>
          if length t = 0 \<or> MAX_TRANSACTION_LENGTH \<le> length t then ERR_INVALID_TRANSACTION
          else if strchr t (CHR 0x22) \<noteq> None \<or> strstr t ''::'' \<noteq> None
                  \<or> strchr t (CHR 0x0A) \<noteq> None \<or> strchr t (CHR 0x0D) \<noteq> None
               then ERR_INVALID_TRANSACTION
          else PROJECT_OK)"

text \<open>The loop that checks all transactions and adds up their lengths and separators.\<close>

fun csv_transactions_length :: "string ptr list \<Rightarrow> project_error_t + nat" where
  "csv_transactions_length [] = Inr 0"
| "csv_transactions_length (t # ts) =
     (if csv_transaction_check t \<noteq> PROJECT_OK then Inl (csv_transaction_check t)
      else (case csv_transactions_length ts of
              Inl e \<Rightarrow> Inl e
            | Inr n \<Rightarrow> Inr (length (the t) + (if ts = [] then 0 else 2) + n)))"

text \<open>The loop that copies the transactions with the separators between them.\<close>

fun join_transactions :: "string list \<Rightarrow> string" where
  "join_transactions [] = []"
| "join_transactions [t] = t"
| "join_transactions (t # u # ts) = t @ ''::'' @ join_transactions (u # ts)"

definition csv_prefix :: "block_t \<Rightarrow> string" where
  "csv_prefix b =
     fmt_016x (index b) @ '','' @ fmt_016x (timestamp b) @ '','' @ previous_hash b @ '',''
     @ merkle_root b @ '','' @ fmt_016x (nonce b) @ '','' @ [CHR 0x22]"

definition csv_line :: "block_t \<Rightarrow> string" where
  "csv_line b = csv_prefix b @ join_transactions (map the (transactions b)) @ [CHR 0x22]"

definition block_to_csv :: "alloc \<Rightarrow> block_t ptr \<Rightarrow> project_error_t + string" where
  "block_to_csv al block =
     (case block of
        None \<Rightarrow> Inl ERR_INVALID_ARGUMENT
      | Some b \<Rightarrow>
          if \<not> is_lowercase_hex_hash (Some (previous_hash b))
             \<or> \<not> is_lowercase_hex_hash (Some (merkle_root b)) then Inl ERR_INVALID_BLOCK
          else if transactions b = [] \<or> MAX_TRANSACTIONS_PER_BLOCK < transaction_count b
               then Inl ERR_INVALID_BLOCK
          else (case csv_transactions_length (transactions b) of
                  Inl e \<Rightarrow> Inl e
                | Inr transactions_length \<Rightarrow>
                    let total_length = 16 + 1 + 16 + 1 + SHA256_HEX_LENGTH + 1 + SHA256_HEX_LENGTH
                                       + 1 + 16 + 1 + 2 + transactions_length
                    in if \<not> al (total_length + 1) then Inl ERR_MEMORY_ALLOCATION
                       else if total_length < length (csv_prefix b) then Inl ERR_SERIALIZATION
                       else if length (csv_line b) \<noteq> total_length then Inl ERR_SERIALIZATION
                       else Inr (csv_line b)))"

text \<open>The loop that cuts the first \<open>n\<close> fields off at the commas.\<close>

fun split_fields :: "nat \<Rightarrow> string \<Rightarrow> (string list \<times> string) option" where
  "split_fields 0 s = Some ([], s)"
| "split_fields (Suc n) s =
     (case strchr s (CHR '','') of
        None \<Rightarrow> None
      | Some i \<Rightarrow>
          (case split_fields n (drop (Suc i) s) of
             None \<Rightarrow> None
           | Some (fs, rest) \<Rightarrow> Some (take i s # fs, rest)))"

text \<open>The loop over the transactions of the last field, cut at the first separator each time.\<close>

function parse_transactions ::
  "alloc \<Rightarrow> block_t ptr \<Rightarrow> string \<Rightarrow> project_error_t \<times> block_t ptr" where
  "parse_transactions al parsed s =
     (case strstr s ''::'' of
        None \<Rightarrow> block_add_transaction al parsed (Some s)
      | Some i \<Rightarrow>
          (case block_add_transaction al parsed (Some (take i s)) of
             (rc, parsed') \<Rightarrow>
               if rc = PROJECT_OK then parse_transactions al parsed' (drop (i + 2) s)
               else (rc, parsed')))"
  by pat_completeness auto
termination
proof (relation "measure (\<lambda>(al, p, s). length s)")
  fix al :: alloc and p p' :: "block_t ptr" and s i x rc
  assume "strstr s ''::'' = Some i"
  then show "((al, p', drop (i + 2) s), al, p, s) \<in> measure (\<lambda>(al, p, s). length s)"
    using strstr_SomeD [of s "''::''" i] by (cases s) auto
qed simp

declare parse_transactions.simps [simp del]

definition block_from_csv :: "alloc \<Rightarrow> string ptr \<Rightarrow> project_error_t + block_t" where
  "block_from_csv al line =
     (case line of
        None \<Rightarrow> Inl ERR_INVALID_ARGUMENT
      | Some l \<Rightarrow>
          if \<not> al (length l + 1) then Inl ERR_MEMORY_ALLOCATION
          else (case split_fields 5 (take (strcspn l [CHR 0x0D, CHR 0x0A]) l) of
                  Some ([f0, f1, f2, f3, f4], f5) \<Rightarrow>
                    if f5 = [] \<or> hd f5 \<noteq> CHR 0x22 then Inl ERR_FILE_FORMAT
                    else if length f5 < 2 \<or> last f5 \<noteq> CHR 0x22 then Inl ERR_FILE_FORMAT
                    else (case parse_hex_u64 (Some f0) of
                            Inl e \<Rightarrow> Inl e
                          | Inr idx \<Rightarrow>
                      (case parse_hex_u64 (Some f1) of
                         Inl e \<Rightarrow> Inl e
                       | Inr ts \<Rightarrow>
                          if \<not> is_lowercase_hex_hash (Some f2) then Inl ERR_FILE_FORMAT
                          else if \<not> is_lowercase_hex_hash (Some f3) then Inl ERR_FILE_FORMAT
                          else (case parse_hex_u64 (Some f4) of
                                  Inl e \<Rightarrow> Inl e
                                | Inr non \<Rightarrow>
                                    let body = tl (butlast f5)
                                    in if body = [] then Inl ERR_FILE_FORMAT
                                       else (case parse_transactions al
                                               (Some (block_zero\<lparr>index := idx, timestamp := ts,
                                                  previous_hash := f2, merkle_root := f3,
                                                  nonce := non\<rparr>)) body of
                                               (rc, parsed) \<Rightarrow>
                                                 if rc = PROJECT_OK then Inr (the parsed)
                                                 else Inl rc))))
                | _ \<Rightarrow> Inl ERR_FILE_FORMAT))"

text \<open>The wire form: the line without the terminator, and its size.\<close>

definition block_serialize :: "alloc \<Rightarrow> block_t ptr \<Rightarrow> project_error_t + (char list \<times> nat)" where
  "block_serialize al block =
     (case block_to_csv al block of
        Inl e \<Rightarrow> Inl e
      | Inr line \<Rightarrow>
          if \<not> al (length line) then Inl ERR_MEMORY_ALLOCATION
          else Inr (line, length line))"

definition block_deserialize ::
  "alloc \<Rightarrow> char list ptr \<Rightarrow> nat \<Rightarrow> project_error_t + block_t" where
  "block_deserialize al buffer buffer_size =
     (if buffer = None \<or> buffer_size = 0 then Inl ERR_INVALID_ARGUMENT
      else if CHR 0x00 \<in> set (take buffer_size (the buffer)) then Inl ERR_SERIALIZATION
      else if \<not> al (buffer_size + 1) then Inl ERR_MEMORY_ALLOCATION
      else block_from_csv al (Some (take buffer_size (the buffer))))"

section \<open>Well-formed blocks\<close>

text \<open>What \<open>block_add_transaction\<close> accepts, and the invariant of every block it builds.\<close>

definition tx_storable :: "string \<Rightarrow> bool" where
  "tx_storable t \<longleftrightarrow> t \<noteq> [] \<and> length t < MAX_TRANSACTION_LENGTH"

definition tx_ptr_ok :: "string ptr \<Rightarrow> bool" where
  "tx_ptr_ok p \<longleftrightarrow> (\<exists>t. p = Some t \<and> tx_storable t)"

definition block_wf :: "block_t \<Rightarrow> bool" where
  "block_wf b \<longleftrightarrow> transaction_count b \<le> MAX_TRANSACTIONS_PER_BLOCK \<and> list_all tx_ptr_ok (transactions b)"

abbreviation txs :: "block_t \<Rightarrow> string list" where
  "txs b \<equiv> map the (transactions b)"

lemma block_wf_zero [simp, wf_intros]: "block_wf block_zero"
  by (simp add: block_wf_def block_zero_def)

lemma block_init_Some [simp]: "block_init (Some b) = (PROJECT_OK, Some block_zero)"
  by (simp add: block_init_def)

lemma block_destroy_Some [simp]: "block_destroy (Some b) = Some block_zero"
  by (simp add: block_destroy_def block_zero_def)

lemma transactions_map_Some:
  "list_all tx_ptr_ok ps \<Longrightarrow> map Some (map the ps) = ps"
  by (induction ps) (auto simp: tx_ptr_ok_def)

lemma block_wf_txs: "block_wf b \<Longrightarrow> t \<in> set (txs b) \<Longrightarrow> tx_storable t"
  by (auto simp: block_wf_def tx_ptr_ok_def list_all_iff)

lemma block_add_transaction_OK:
  assumes "block_add_transaction al (Some b) p = (PROJECT_OK, r)"
  shows "tx_ptr_ok p" "transaction_count b < MAX_TRANSACTIONS_PER_BLOCK"
    "r = Some (b\<lparr>transactions := transactions b @ [p]\<rparr>)"
  using assms
  by (auto simp: block_add_transaction_def tx_ptr_ok_def tx_storable_def split: option.splits if_splits)

lemma block_add_transaction_error:
  "block_add_transaction al block p = (rc, r) \<Longrightarrow> rc \<noteq> PROJECT_OK \<Longrightarrow> r = block"
  by (auto simp: block_add_transaction_def split: option.splits if_splits)

lemma block_add_transaction_total:
  assumes "alloc_total al" "tx_ptr_ok p" "transaction_count b < MAX_TRANSACTIONS_PER_BLOCK"
  shows "block_add_transaction al (Some b) p = (PROJECT_OK, Some (b\<lparr>transactions := transactions b @ [p]\<rparr>))"
  using assms by (auto simp: block_add_transaction_def tx_ptr_ok_def tx_storable_def alloc_total_def)

lemma add_transactions_OK:
  assumes "add_transactions al (Some b) ps = (PROJECT_OK, r)"
  shows "r = Some (b\<lparr>transactions := transactions b @ ps\<rparr>)" "list_all tx_ptr_ok ps"
    "transaction_count b \<le> 16 \<Longrightarrow> transaction_count b + length ps \<le> MAX_TRANSACTIONS_PER_BLOCK"
  using assms
proof (induction ps arbitrary: b)
  case (Cons p ps)
  {
    case 1
    then show ?case using Cons.IH(1) block_add_transaction_OK by (fastforce split: prod.splits if_splits)
  next
    case 2
    then show ?case using Cons.IH(2) block_add_transaction_OK by (fastforce split: prod.splits if_splits)
  next
    case 3
    then obtain r1 where add: "block_add_transaction al (Some b) p = (PROJECT_OK, r1)"
      and rest: "add_transactions al r1 ps = (PROJECT_OK, r)"
      by (auto split: prod.splits if_splits)
    note a = block_add_transaction_OK [OF add]
    from rest a(3) have "transaction_count (b\<lparr>transactions := transactions b @ [p]\<rparr>) + length ps \<le> 16"
      using a(2) by (intro Cons.IH(3)) auto
    then show ?case by simp
  }
qed auto

lemma add_transactions_total:
  assumes "alloc_total al" "list_all tx_ptr_ok ps"
    "transaction_count b + length ps \<le> MAX_TRANSACTIONS_PER_BLOCK"
  shows "add_transactions al (Some b) ps = (PROJECT_OK, Some (b\<lparr>transactions := transactions b @ ps\<rparr>))"
  using assms(2,3)
proof (induction ps arbitrary: b)
  case (Cons p ps)
  then show ?case using assms(1) by (simp add: block_add_transaction_total)
qed simp

section \<open>Copying\<close>

lemma block_copy_total:
  assumes "alloc_total al" "block_wf s"
  shows "block_copy al (Some d) (Some s) = (PROJECT_OK, Some s)"
  using assms by (simp add: block_copy_def block_zero_def add_transactions_total block_wf_def)

lemma block_copy_OK:
  assumes "block_copy al (Some d) (Some s) = (PROJECT_OK, r)"
  shows "r = Some s" "block_wf s"
  using assms
  by (auto simp: block_copy_def block_zero_def block_wf_def split: prod.splits if_splits dest: add_transactions_OK)

lemma add_transactions_Some:
  "\<exists>r. snd (add_transactions al (Some b) ps) = Some r"
proof (induction ps arbitrary: b)
  case (Cons p ps)
  have "\<exists>b'. snd (block_add_transaction al (Some b) p) = Some b'"
    by (auto simp: block_add_transaction_def split: option.splits)
  then show ?case using Cons.IH by (auto split: prod.splits)
qed simp

lemma block_copy_error:
  assumes "block_copy al (Some d) (Some s) = (rc, r)" "rc \<noteq> PROJECT_OK"
  shows "r = Some block_zero"
proof -
  let ?d0 = "block_zero\<lparr>index := index s, timestamp := timestamp s, nonce := nonce s,
               previous_hash := previous_hash s, merkle_root := merkle_root s\<rparr>"
  obtain r' where "snd (add_transactions al (Some ?d0) (transactions s)) = Some r'"
    using add_transactions_Some by blast
  then show ?thesis
    using assms by (auto simp: block_copy_def split: prod.splits if_splits)
qed

section \<open>Separators\<close>

text \<open>
  Cutting at the first separator each time, as the parser does. A list of transactions is read
  back from its joined form when no transaction but the last ends in a colon and none contains the
  separator.
\<close>

function split_colons :: "string \<Rightarrow> string list" where
  "split_colons s =
     (case strstr s ''::'' of None \<Rightarrow> [s] | Some i \<Rightarrow> take i s # split_colons (drop (i + 2) s))"
  by pat_completeness auto
termination
proof (relation "measure length")
  fix s i
  assume "strstr s ''::'' = Some i"
  then show "(drop (i + 2) s, s) \<in> measure length"
    using strstr_SomeD [of s "''::''" i] by (cases s) auto
qed simp

declare split_colons.simps [simp del]

fun separable :: "string list \<Rightarrow> bool" where
  "separable [] = True"
| "separable [t] = (strstr t ''::'' = None)"
| "separable (t # u # ts) = (strstr (t @ '':'') ''::'' = None \<and> separable (u # ts))"

lemma split_colons_nonempty [simp]: "split_colons s \<noteq> []"
  by (subst split_colons.simps) (auto split: option.splits)

lemma join_Cons: "ts \<noteq> [] \<Longrightarrow> join_transactions (t # ts) = t @ ''::'' @ join_transactions ts"
  by (cases ts) auto

lemma separable_Cons:
  "ts \<noteq> [] \<Longrightarrow> separable (t # ts) \<longleftrightarrow> strstr (t @ '':'') ''::'' = None \<and> separable ts"
  by (cases ts) auto

lemma join_split_colons: "join_transactions (split_colons s) = s"
proof (induction s rule: split_colons.induct)
  case (1 s)
  show ?case
  proof (cases "strstr s ''::''")
    case None
    then show ?thesis by (simp add: split_colons.simps)
  next
    case (Some i)
    then show ?thesis
      using 1 [OF Some] strstr_Some_split [OF Some] by (subst split_colons.simps) (simp add: join_Cons)
  qed
qed

lemma separable_split_colons: "separable (split_colons s)"
proof (induction s rule: split_colons.induct)
  case (1 s)
  show ?case
  proof (cases "strstr s ''::''")
    case None
    then show ?thesis by (simp add: split_colons.simps)
  next
    case (Some i)
    then show ?thesis
      using 1 [OF Some] strstr_colons_prefix [OF Some]
      by (subst split_colons.simps) (simp add: separable_Cons)
  qed
qed

lemma split_join: "separable ts \<Longrightarrow> ts \<noteq> [] \<Longrightarrow> split_colons (join_transactions ts) = ts"
proof (induction ts rule: separable.induct)
  case (3 t u ts)
  then have "strstr (t @ ''::'' @ join_transactions (u # ts)) ''::'' = Some (length t)"
    by (intro strstr_colons) simp
  with 3 show ?case by (subst split_colons.simps) simp
qed (simp_all add: split_colons.simps)

lemma join_inj_separable:
  assumes "separable ts" "separable us" "ts \<noteq> []" "us \<noteq> []"
  shows "join_transactions ts = join_transactions us \<longleftrightarrow> ts = us"
  using assms split_join by metis

lemma parse_transactions_add:
  "parse_transactions al parsed s = add_transactions al parsed (map Some (split_colons s))"
proof (induction al parsed s rule: parse_transactions.induct)
  case (1 al parsed s)
  show ?case
  proof (cases "strstr s ''::''")
    case None
    then show ?thesis
      by (simp add: parse_transactions.simps split_colons.simps split: prod.splits)
  next
    case (Some i)
    then show ?thesis
      using 1 [OF Some] by (subst parse_transactions.simps, subst split_colons.simps) (auto split: prod.splits)
  qed
qed

lemma length_join_transactions:
  "length (join_transactions ts) = sum_list (map length ts) + 2 * (length ts - 1)"
  by (induction ts rule: join_transactions.induct) auto

section \<open>Printing a block\<close>

definition hash_ok :: "string \<Rightarrow> bool" where
  "hash_ok h \<longleftrightarrow> length h = SHA256_HEX_LENGTH \<and> list_all c_islower_hex h"

lemma is_lowercase_hex_hash_Some [simp]: "is_lowercase_hex_hash (Some h) = hash_ok h"
  by (simp add: is_lowercase_hex_hash_def hash_ok_def)

definition tx_printable :: "string \<Rightarrow> bool" where
  "tx_printable t \<longleftrightarrow>
     tx_storable t \<and> CHR 0x22 \<notin> set t \<and> strstr t ''::'' = None \<and> CHR 0x0A \<notin> set t \<and> CHR 0x0D \<notin> set t"

definition block_printable :: "block_t \<Rightarrow> bool" where
  "block_printable b \<longleftrightarrow>
     hash_ok (previous_hash b) \<and> hash_ok (merkle_root b) \<and> transactions b \<noteq> []
     \<and> transaction_count b \<le> MAX_TRANSACTIONS_PER_BLOCK
     \<and> list_all (\<lambda>p. p \<noteq> None \<and> tx_printable (the p)) (transactions b)"

lemma csv_transaction_check_OK [simp]:
  "csv_transaction_check p = PROJECT_OK \<longleftrightarrow> p \<noteq> None \<and> tx_printable (the p)"
  by (auto simp: csv_transaction_check_def tx_printable_def tx_storable_def split: option.splits)

lemma csv_transaction_check_error:
  "csv_transaction_check p \<noteq> PROJECT_OK \<Longrightarrow> csv_transaction_check p = ERR_INVALID_TRANSACTION"
  by (auto simp: csv_transaction_check_def split: option.splits if_splits)

lemma csv_transactions_length_eq:
  "csv_transactions_length ps =
     (if list_all (\<lambda>p. p \<noteq> None \<and> tx_printable (the p)) ps
      then Inr (length (join_transactions (map the ps))) else Inl ERR_INVALID_TRANSACTION)"
proof (induction ps)
  case (Cons p ps)
  then show ?case
    using csv_transaction_check_error [of p] by (cases "ps = []") (auto simp: join_Cons)
qed simp

lemma length_csv_prefix:
  "hash_ok (previous_hash b) \<Longrightarrow> hash_ok (merkle_root b) \<Longrightarrow> length (csv_prefix b) = 182"
  by (simp add: csv_prefix_def hash_ok_def)

text \<open>
  The whole behaviour of \<open>block_to_csv\<close>: the length computed for the buffer is the length of the
  line, so the two serialization errors cannot occur.
\<close>

lemma block_to_csv_eq:
  "block_to_csv al (Some b) =
     (if \<not> hash_ok (previous_hash b) \<or> \<not> hash_ok (merkle_root b) \<or> transactions b = []
         \<or> MAX_TRANSACTIONS_PER_BLOCK < transaction_count b then Inl ERR_INVALID_BLOCK
      else if \<not> block_printable b then Inl ERR_INVALID_TRANSACTION
      else if \<not> al (length (csv_line b) + 1) then Inl ERR_MEMORY_ALLOCATION
      else Inr (csv_line b))"
  by (auto simp: block_to_csv_def csv_transactions_length_eq block_printable_def csv_line_def
      length_csv_prefix Let_def)

lemma block_to_csv_Inr:
  "block_to_csv al (Some b) = Inr line \<longleftrightarrow>
     block_printable b \<and> al (length (csv_line b) + 1) \<and> line = csv_line b"
  by (auto simp: block_to_csv_eq block_printable_def)

lemma block_printable_wf: "block_printable b \<Longrightarrow> block_wf b"
  by (auto simp: block_printable_def block_wf_def tx_printable_def tx_ptr_ok_def list_all_iff)

lemma sum_list_le_mult: "\<forall>x\<in>set xs. x \<le> (k::nat) \<Longrightarrow> sum_list xs \<le> k * length xs"
  by (induction xs) auto

lemma length_csv_line_le:
  assumes "block_printable b"
  shows "length (csv_line b) \<le> 4293"
proof -
  have "\<forall>x\<in>set (map length (txs b)). x \<le> 255"
    using assms by (auto simp: block_printable_def list_all_iff tx_printable_def tx_storable_def)
  then have "sum_list (map length (txs b)) \<le> 255 * transaction_count b"
    using sum_list_le_mult by fastforce
  moreover have "transaction_count b \<le> 16" using assms by (simp add: block_printable_def)
  ultimately show ?thesis
    using assms by (simp add: csv_line_def length_csv_prefix block_printable_def length_join_transactions)
qed

section \<open>Reading a line\<close>

lemma parse_hex_u64_fmt [simp]: "parse_hex_u64 (Some (fmt_016x w)) = Inr w"
proof -
  have "fmt_016x w \<noteq> []" by (metis length_0_conv length_fmt_016x zero_neq_numeral)
  then show ?thesis by (simp add: parse_hex_u64_def strtoull_fmt_016x)
qed

lemma split_fields_step:
  assumes "CHR '','' \<notin> set f"
  shows "split_fields (Suc n) (f @ CHR '','' # r) =
           map_option (\<lambda>(fs, x). (f # fs, x)) (split_fields n r)"
  using assms by (simp split: option.splits)

lemma hash_ok_not_in [simp]: "hash_ok h \<Longrightarrow> \<not> c_islower_hex c \<Longrightarrow> c \<notin> set h"
  by (auto simp: hash_ok_def list_all_iff)

lemma fmt_016x_not_in [simp]: "\<not> c_islower_hex c \<Longrightarrow> c \<notin> set (fmt_016x w)"
  using fmt_016x_lower by blast

lemma join_transactions_not_in:
  "\<forall>t\<in>set ts. c \<notin> set t \<Longrightarrow> c \<noteq> CHR '':'' \<Longrightarrow> c \<notin> set (join_transactions ts)"
  by (induction ts rule: join_transactions.induct) auto

lemma csv_line_not_in:
  assumes "block_printable b" "\<not> c_islower_hex c" "c \<notin> {CHR '','', CHR 0x22, CHR '':''}"
    "\<forall>t\<in>set (txs b). c \<notin> set t"
  shows "c \<notin> set (csv_line b)"
  using assms join_transactions_not_in [of "txs b" c]
  by (simp add: block_printable_def csv_line_def csv_prefix_def)

lemma csv_line_no_newline:
  assumes "block_printable b"
  shows "CHR 0x0A \<notin> set (csv_line b)" "CHR 0x0D \<notin> set (csv_line b)"
proof -
  have "\<forall>t\<in>set (txs b). CHR 0x0A \<notin> set t" "\<forall>t\<in>set (txs b). CHR 0x0D \<notin> set t"
    using assms by (auto simp: block_printable_def list_all_iff tx_printable_def)
  then show "CHR 0x0A \<notin> set (csv_line b)" "CHR 0x0D \<notin> set (csv_line b)"
    using assms csv_line_not_in by simp_all
qed

lemma split_fields_csv_line:
  assumes "block_printable b"
  shows "split_fields 5 (csv_line b) =
    Some ([fmt_016x (index b), fmt_016x (timestamp b), previous_hash b, merkle_root b, fmt_016x (nonce b)],
          CHR 0x22 # join_transactions (txs b) @ [CHR 0x22])"
proof -
  have "(5::nat) = Suc (Suc (Suc (Suc (Suc 0))))" by simp
  then show ?thesis
    using assms
    by (simp only: hash_ok_not_in fmt_016x_not_in comma_not_hex csv_line_def csv_prefix_def append_assoc append_Cons append_Nil
        split_fields_step block_printable_def split_fields.simps(1) option.map prod.case not_False_eq_True)
qed

lemma takeWhile_stop_newline:
  assumes "CHR 0x0A \<notin> set l" "CHR 0x0D \<notin> set l" "r = [] \<or> hd r \<in> {CHR 0x0A, CHR 0x0D}"
  shows "take (strcspn (l @ r) [CHR 0x0D, CHR 0x0A]) (l @ r) = l"
proof -
  have "takeWhile (\<lambda>c. c \<notin> set [CHR 0x0D, CHR 0x0A]) (l @ r) = l"
    using assms by (intro takeWhile_all_append_stop) auto
  then show ?thesis by (simp only: strcspn_def) (metis append_eq_conv_conj)
qed

lemma join_nonempty: "ts \<noteq> [] \<Longrightarrow> \<forall>t\<in>set ts. t \<noteq> [] \<Longrightarrow> join_transactions ts \<noteq> []"
  by (cases ts rule: join_transactions.cases) auto

text \<open>What was printed is read back, also when a line ending follows it.\<close>

lemma block_from_csv_line:
  assumes "alloc_total al" "block_printable b" "separable (txs b)"
    "r = [] \<or> hd r \<in> {CHR 0x0A, CHR 0x0D}"
  shows "block_from_csv al (Some (csv_line b @ r)) = Inr b"
proof -
  let ?f5 = "CHR 0x22 # join_transactions (txs b) @ [CHR 0x22]"
  have cut: "take (strcspn (csv_line b @ r) [CHR 0x0D, CHR 0x0A]) (csv_line b @ r) = csv_line b"
    using takeWhile_stop_newline csv_line_no_newline [OF assms(2)] assms(4) by blast
  have ne: "txs b \<noteq> []" "\<forall>t\<in>set (txs b). t \<noteq> []"
    using assms(2) by (auto simp: block_printable_def list_all_iff tx_printable_def tx_storable_def)
  have body: "tl (butlast ?f5) = join_transactions (txs b)" by simp
  have wf: "list_all tx_ptr_ok (transactions b)" "transaction_count b \<le> 16"
    using block_printable_wf [OF assms(2)] by (simp_all add: block_wf_def)
  let ?b0 = "block_zero\<lparr>index := index b, timestamp := timestamp b, previous_hash := previous_hash b,
               merkle_root := merkle_root b, nonce := nonce b\<rparr>"
  have "parse_transactions al (Some ?b0) (join_transactions (txs b)) =
        (PROJECT_OK, Some (?b0\<lparr>transactions := transactions b\<rparr>))"
    using assms(1,3) ne(1) wf
    by (simp add: parse_transactions_add split_join add_transactions_total transactions_map_Some block_zero_def
        del: map_map)
  then show ?thesis
    using assms(1,2) cut ne body split_fields_csv_line [OF assms(2)] join_nonempty [OF ne]
    by (simp add: block_from_csv_def block_printable_def Let_def alloc_total_def block_zero_def)
qed

section \<open>Blocks that were read from a line\<close>

text \<open>What every successfully parsed block satisfies, whatever the input line was.\<close>

definition block_parsed :: "block_t \<Rightarrow> bool" where
  "block_parsed b \<longleftrightarrow>
     hash_ok (previous_hash b) \<and> hash_ok (merkle_root b) \<and> block_wf b \<and> transactions b \<noteq> []
     \<and> separable (txs b)"

lemma split_fields_rest_subset:
  "split_fields n s = Some (fs, r) \<Longrightarrow> set r \<subseteq> set s"
  by (induction n arbitrary: s fs) (fastforce split: option.splits dest: in_set_dropD)+

lemma set_join_superset: "t \<in> set ts \<Longrightarrow> set t \<subseteq> set (join_transactions ts)"
  by (induction ts rule: join_transactions.induct) auto

lemma block_from_csv_obtain:
  assumes "block_from_csv al (Some l) = Inr b"
  obtains idx ts f2 f3 non f5 fs where
    "split_fields 5 (take (strcspn l [CHR 0x0D, CHR 0x0A]) l) = Some (fs, f5)"
    "hash_ok f2" "hash_ok f3"
    "parse_transactions al (Some (block_zero\<lparr>index := idx, timestamp := ts, previous_hash := f2,
        merkle_root := f3, nonce := non\<rparr>)) (tl (butlast f5)) = (PROJECT_OK, Some b)"
proof -
  obtain f0 f1 f2 f3 f4 f5 where
    sf: "split_fields 5 (take (strcspn l [CHR 0x0D, CHR 0x0A]) l) = Some ([f0, f1, f2, f3, f4], f5)"
    using assms by (auto simp: block_from_csv_def split: option.splits list.splits if_splits)
  then obtain idx ts non rc parsed where
    h: "hash_ok f2" "hash_ok f3" and
    p: "parse_transactions al (Some (block_zero\<lparr>index := idx, timestamp := ts, previous_hash := f2,
        merkle_root := f3, nonce := non\<rparr>)) (tl (butlast f5)) = (PROJECT_OK, parsed)" and "b = the parsed"
    using assms
    by (auto simp: block_from_csv_def Let_def split: if_splits sum.splits prod.splits)
  moreover have "parsed \<noteq> None"
    using p by (auto simp: parse_transactions_add dest: add_transactions_OK)
  ultimately show thesis using that sf by auto
qed

lemma block_from_csv_parsed:
  assumes "block_from_csv al (Some l) = Inr b"
  shows "block_parsed b"
proof -
  obtain idx ts f2 f3 non f5 fs where h: "hash_ok f2" "hash_ok f3"
    and p: "parse_transactions al (Some (block_zero\<lparr>index := idx, timestamp := ts, previous_hash := f2,
        merkle_root := f3, nonce := non\<rparr>)) (tl (butlast f5)) = (PROJECT_OK, Some b)"
    using block_from_csv_obtain [OF assms] by metis
  note a = add_transactions_OK [OF p [unfolded parse_transactions_add]]
  show ?thesis
    using a h separable_split_colons
    by (auto simp: block_parsed_def block_zero_def block_wf_def comp_def)
qed

lemma block_from_csv_cstring:
  assumes "block_from_csv al (Some l) = Inr b" "is_cstring l" "t \<in> set (txs b)"
  shows "is_cstring t"
proof -
  obtain idx ts f2 f3 non f5 fs where
    sf: "split_fields 5 (take (strcspn l [CHR 0x0D, CHR 0x0A]) l) = Some (fs, f5)"
    and p: "parse_transactions al (Some (block_zero\<lparr>index := idx, timestamp := ts, previous_hash := f2,
        merkle_root := f3, nonce := non\<rparr>)) (tl (butlast f5)) = (PROJECT_OK, Some b)"
    using block_from_csv_obtain [OF assms(1)] by metis
  note a = add_transactions_OK [OF p [unfolded parse_transactions_add]]
  have "t \<in> set (split_colons (tl (butlast f5)))"
    using a(1) assms(3) by (auto simp: block_zero_def)
  then have "set t \<subseteq> set (tl (butlast f5))"
    using set_join_superset [of t] join_split_colons by metis
  also have "\<dots> \<subseteq> set f5"
    using set_drop_subset [of 1 "butlast f5"] by (auto simp: drop_Suc dest: in_set_butlastD)
  also have "\<dots> \<subseteq> set l"
    using split_fields_rest_subset [OF sf] set_take_subset by (rule subset_trans)
  finally show ?thesis using assms(2) by (auto simp: is_cstring_def)
qed

text \<open>What is parsed does not depend on the allocator: it only decides whether parsing succeeds.\<close>

lemma parse_transactions_alloc:
  assumes "parse_transactions al (Some b) s = (PROJECT_OK, r)" "alloc_total al'" "transactions b = []"
  shows "parse_transactions al' (Some b) s = (PROJECT_OK, r)"
proof -
  note a = add_transactions_OK [OF assms(1) [unfolded parse_transactions_add]]
  then show ?thesis
    using assms(2,3) add_transactions_total [OF assms(2) a(2), of b] by (simp add: parse_transactions_add)
qed

lemma block_from_csv_alloc:
  assumes "block_from_csv al (Some l) = Inr b" "alloc_total al'"
  shows "block_from_csv al' (Some l) = Inr b"
proof -
  obtain f0 f1 f2 f3 f4 f5 where
    sf: "split_fields 5 (take (strcspn l [CHR 0x0D, CHR 0x0A]) l) = Some ([f0, f1, f2, f3, f4], f5)"
    using assms by (auto simp: block_from_csv_def split: option.splits list.splits if_splits)
  then obtain idx ts non parsed where
    g: "f5 \<noteq> []" "hd f5 = CHR 0x22" "\<not> length f5 < 2" "last f5 = CHR 0x22"
      "parse_hex_u64 (Some f0) = Inr idx" "parse_hex_u64 (Some f1) = Inr ts" "parse_hex_u64 (Some f4) = Inr non"
      "is_lowercase_hex_hash (Some f2)" "is_lowercase_hex_hash (Some f3)" "tl (butlast f5) \<noteq> []" and
    p: "parse_transactions al (Some (block_zero\<lparr>index := idx, timestamp := ts, previous_hash := f2,
        merkle_root := f3, nonce := non\<rparr>)) (tl (butlast f5)) = (PROJECT_OK, parsed)" and b: "b = the parsed"
    using assms(1)
    by (auto simp: block_from_csv_def Let_def split: if_splits sum.splits prod.splits)
  have "parse_transactions al' (Some (block_zero\<lparr>index := idx, timestamp := ts, previous_hash := f2,
        merkle_root := f3, nonce := non\<rparr>)) (tl (butlast f5)) = (PROJECT_OK, parsed)"
    using p assms(2) by (rule parse_transactions_alloc) (simp add: block_zero_def)
  moreover have "al' (length l + 1)" using assms(2) by (rule alloc_totalD)
  ultimately show ?thesis using sf g b by (simp add: block_from_csv_def Let_def)
qed

lemma block_from_csv_line_unique:
  assumes "block_from_csv al (Some (csv_line b)) = Inr b'" "block_printable b" "separable (txs b)"
  shows "b' = b"
  using block_from_csv_alloc [OF assms(1) alloc_total_no_oom]
    block_from_csv_line [OF alloc_total_no_oom assms(2,3), of "[]"] by simp

text \<open>An error is never reported with the code of success.\<close>

lemma parse_hex_u64_not_OK: "parse_hex_u64 p \<noteq> Inl PROJECT_OK"
  by (auto simp: parse_hex_u64_def split: option.splits prod.splits)

lemma block_from_csv_not_OK: "block_from_csv al p \<noteq> Inl PROJECT_OK"
  using parse_hex_u64_not_OK
  by (auto simp: block_from_csv_def Let_def split: option.splits list.splits sum.splits prod.splits)

text \<open>A parsed block that can be printed is read back from its printed form.\<close>

lemma parsed_printable_read_back:
  assumes "alloc_total al" "block_parsed b" "block_printable b"
  shows "block_from_csv al (Some (csv_line b)) = Inr b"
  using block_from_csv_line [OF assms(1,3), of "[]"] assms(2) by (simp add: block_parsed_def)

section \<open>Encodings with a read-back law\<close>

text \<open>
  The contract between a writer and a reader: on the values it is meant for, the writer succeeds
  and the reader returns the value. It is interpreted for the CSV line and for the wire buffer of a
  block, and later for the file of a whole chain and for messages.
\<close>

locale codec =
  fixes encode :: "'a \<Rightarrow> 'e + 'b"
    and decode :: "'b \<Rightarrow> 'e + 'a"
    and ok :: "'a \<Rightarrow> bool"
  assumes read_back: "ok x \<Longrightarrow> \<exists>y. encode x = Inr y \<and> decode y = Inr x"
begin

lemma decode_encoded: "ok x \<Longrightarrow> encode x = Inr y \<Longrightarrow> decode y = Inr x"
  using read_back by force

lemma encode_inj: "ok x \<Longrightarrow> ok z \<Longrightarrow> encode x = encode z \<Longrightarrow> x = z"
  using read_back by (metis sum.inject(2))

lemma encode_all:
  "list_all ok xs \<Longrightarrow> \<exists>ys. map encode xs = map Inr ys \<and> map decode ys = map Inr xs"
proof (induction xs)
  case (Cons x xs)
  then obtain ys where "map encode xs = map Inr ys \<and> map decode ys = map Inr xs" by auto
  moreover obtain y where "encode x = Inr y \<and> decode y = Inr x"
    using read_back Cons.prems by auto
  ultimately have "map encode (x # xs) = map Inr (y # ys) \<and> map decode (y # ys) = map Inr (x # xs)"
    by simp
  then show ?case by blast
qed simp

end

interpretation csv: codec "\<lambda>b. block_to_csv no_oom (Some b)" "\<lambda>l. block_from_csv no_oom (Some l)"
  "\<lambda>b. block_printable b \<and> separable (txs b)"
proof
  fix b assume "block_printable b \<and> separable (txs b)"
  then show "\<exists>y. block_to_csv no_oom (Some b) = Inr y \<and> block_from_csv no_oom (Some y) = Inr b"
    using block_from_csv_line [of no_oom b "[]"] by (simp add: block_to_csv_Inr)
qed

text \<open>A transaction list without NUL characters, as every C string is.\<close>

definition block_cstrings :: "block_t \<Rightarrow> bool" where
  "block_cstrings b \<longleftrightarrow> list_all is_cstring (txs b)"

lemma csv_line_cstring:
  assumes "block_printable b" "block_cstrings b"
  shows "is_cstring (csv_line b)"
  using assms csv_line_not_in [OF assms(1), of "CHR 0x00"]
  by (simp add: is_cstring_def block_cstrings_def list_all_iff)

interpretation wire: codec "\<lambda>b. block_serialize no_oom (Some b)" "\<lambda>(buf, n). block_deserialize no_oom (Some buf) n"
  "\<lambda>b. block_printable b \<and> separable (txs b) \<and> block_cstrings b"
proof
  fix b assume b: "block_printable b \<and> separable (txs b) \<and> block_cstrings b"
  then have "block_from_csv no_oom (Some (csv_line b)) = Inr b" "is_cstring (csv_line b)"
    using block_from_csv_line [of no_oom b "[]"] csv_line_cstring by simp_all
  moreover have "csv_line b \<noteq> []" by (simp add: csv_line_def)
  ultimately have "block_serialize no_oom (Some b) = Inr (csv_line b, length (csv_line b))"
    "block_deserialize no_oom (Some (csv_line b)) (length (csv_line b)) = Inr b"
    using b by (simp_all add: block_serialize_def block_to_csv_eq block_deserialize_def is_cstring_def
        block_printable_def)
  then show "\<exists>y. block_serialize no_oom (Some b) = Inr y \<and>
       (case y of (buf, n) \<Rightarrow> block_deserialize no_oom (Some buf) n) = Inr b"
    by auto
qed

section \<open>Properties\<close>

definition sample_block :: "string list \<Rightarrow> block_t" where
  "sample_block ts =
     \<lparr>index = 3, timestamp = 1700000000, previous_hash = replicate 64 (CHR ''a''),
      merkle_root = replicate 64 (CHR ''0''), nonce = 42, transactions = map Some ts\<rparr>"

lemma sample_hashes [simp]: "hash_ok (replicate 64 (CHR ''a''))" "hash_ok (replicate 64 (CHR ''0''))"
  by (simp_all add: hash_ok_def list_all_iff c_islower_hex_def c_isdigit_def code_def)

lemma sample_printable:
  "block_printable (sample_block [''Alice pays Bob 5 coins'']) \<and> separable (txs (sample_block [''Alice pays Bob 5 coins'']))"
  by (simp add: sample_block_def block_printable_def tx_printable_def tx_storable_def)

text \<open>
  C22. Round trip of a block through its CSV line: with memory available, a block that passes the
  checks of \<open>block_to_csv\<close> and whose transactions are told apart by the separator is printed, and the
  line, with or without a line ending, is parsed back to the same block.
\<close>

theorem csv_round_trip:
  assumes "alloc_total al" "block_printable b" "separable (txs b)"
  shows "\<exists>line. block_to_csv al (Some b) = Inr line \<and> block_from_csv al (Some line) = Inr b
               \<and> block_from_csv al (Some (line @ [CHR 0x0A])) = Inr b"
  using assms block_from_csv_line [OF assms, of "[]"] block_from_csv_line [OF assms, of "[CHR 0x0A]"]
  by (simp add: block_to_csv_Inr alloc_totalD)

theorem csv_round_trip_witness:
  "\<exists>line. block_to_csv no_oom (Some (sample_block [''Alice pays Bob 5 coins''])) = Inr line
     \<and> block_from_csv no_oom (Some line) = Inr (sample_block [''Alice pays Bob 5 coins''])"
  using csv_round_trip [of no_oom "sample_block [''Alice pays Bob 5 coins'']"] sample_printable by auto


text \<open>
  C23. Whatever the input line is, a block that \<open>block_from_csv\<close> returns has two hash fields of 64
  lower-case hexadecimal digits and between one and sixteen transactions of 1 to 255 characters,
  and its transactions are the only list that its printed form stands for.
\<close>

theorem parsed_block_bounds:
  assumes "block_from_csv al (Some line) = Inr b"
  shows "hash_ok (previous_hash b) \<and> hash_ok (merkle_root b)
    \<and> 1 \<le> transaction_count b \<and> transaction_count b \<le> MAX_TRANSACTIONS_PER_BLOCK
    \<and> list_all (\<lambda>p. \<exists>t. p = Some t \<and> 1 \<le> length t \<and> length t \<le> 255) (transactions b)
    \<and> split_colons (join_transactions (txs b)) = txs b"
proof -
  have b: "block_parsed b" using assms by (rule block_from_csv_parsed)
  then have "list_all (\<lambda>p. \<exists>t. p = Some t \<and> 1 \<le> length t \<and> length t \<le> 255) (transactions b)"
    by (force simp: block_parsed_def block_wf_def list_all_iff tx_ptr_ok_def tx_storable_def Suc_le_eq)
  with b split_join [of "txs b"] show ?thesis
    by (simp add: block_parsed_def block_wf_def Suc_le_eq)
qed

theorem parsed_block_bounds_witness:
  "transaction_count (sample_block [''Alice pays Bob 5 coins'']) \<le> 16
   \<and> block_from_csv no_oom (Some (csv_line (sample_block [''Alice pays Bob 5 coins''])))
     = Inr (sample_block [''Alice pays Bob 5 coins''])"
proof -
  let ?b = "sample_block [''Alice pays Bob 5 coins'']"
  have r: "block_from_csv no_oom (Some (csv_line ?b)) = Inr ?b"
    using block_from_csv_line [of no_oom ?b "[]"] sample_printable by simp
  show ?thesis using parsed_block_bounds [OF r] r by simp
qed

text \<open>
  Copying is all or nothing: when \<open>block_copy\<close> succeeds the destination is the source, and when
  it fails, for lack of memory or because of a transaction the block may not hold, the destination
  is the empty block. With memory it succeeds on every well-formed block.
\<close>

theorem block_copy_all_or_nothing:
  assumes "block_copy al (Some d) (Some s) = (rc, r)"
  shows "(rc = PROJECT_OK \<longrightarrow> r = Some s \<and> block_wf s) \<and> (rc \<noteq> PROJECT_OK \<longrightarrow> r = Some block_zero)
         \<and> (alloc_total al \<and> block_wf s \<longrightarrow> rc = PROJECT_OK)"
  using assms block_copy_OK [of al d s r] block_copy_error [of al d s rc r] block_copy_total [of al s d] by auto

theorem block_copy_all_or_nothing_witness:
  "block_copy (\<lambda>n. n < 20) (Some block_zero) (Some (sample_block [''Alice pays Bob 5 coins'']))
     = (ERR_MEMORY_ALLOCATION, Some block_zero)"
proof -
  obtain rc r where c: "block_copy (\<lambda>n. n < 20) (Some block_zero) (Some (sample_block [''Alice pays Bob 5 coins'']))
      = (rc, r)" by fastforce
  then have "rc = ERR_MEMORY_ALLOCATION"
    by (simp add: block_copy_def sample_block_def block_add_transaction_def block_zero_def)
  with block_copy_all_or_nothing [OF c] c show ?thesis by simp
qed

end
