(* ===== verification/Crypto.thy ===== *)
theory Crypto
  imports Sha256 Block
begin

text \<open>
  Hashing (\<^verbatim>\<open>include/crypto.h\<close>, \<^verbatim>\<open>common/crypto.c\<close>): SHA-256 of a buffer as bytes and as a
  hexadecimal string, the Merkle root of a list of transactions, and the hash of a block. What is
  proved about Merkle roots and block hashes needs only the length of a digest, so it is proved in
  the locale \<open>digest\<close> and used through its interpretation for SHA-256.
\<close>

unbundle bit_operations_syntax

section \<open>Operations\<close>

definition digest_to_hex :: "u8 list \<Rightarrow> string" where
  "digest_to_hex digest =
     concat (map (\<lambda>b. [digit_char (unat (drop_bit 4 b AND 0x0f)), digit_char (unat (b AND 0x0f))]) digest)"

text \<open>
  The context lives on the stack, so its buffer starts with arbitrary bytes; the digest does not
  depend on them, and the model starts from zeros.
\<close>

definition sha256_bytes :: "char list ptr \<Rightarrow> nat \<Rightarrow> project_error_t + u8 list" where
  "sha256_bytes data data_size =
     (if data = None \<and> data_size \<noteq> 0 then Inl ERR_INVALID_ARGUMENT
      else (let ctx = sha256_init \<lparr>ctx_data = replicate 64 0, datalen = 0, bitlen = 0, ctx_state = []\<rparr>
            in Inr (sha256_final
                 (if 0 < data_size then sha256_update ctx (map of_char (take data_size (the data)))
                  else ctx))))"

definition sha256_hex :: "char list ptr \<Rightarrow> nat \<Rightarrow> project_error_t + string" where
  "sha256_hex data data_size =
     (case sha256_bytes data data_size of
        Inl e \<Rightarrow> Inl e
      | Inr digest \<Rightarrow> Inr (digest_to_hex digest))"

text \<open>The loop that hashes the transactions into the lowest level.\<close>

fun merkle_leaves :: "string ptr list \<Rightarrow> project_error_t + string list" where
  "merkle_leaves [] = Inr []"
| "merkle_leaves (t # ts) =
     (case t of
        None \<Rightarrow> Inl ERR_INVALID_TRANSACTION
      | Some tx \<Rightarrow>
          (case sha256_hex (Some tx) (length tx) of
             Inl e \<Rightarrow> Inl e
           | Inr h \<Rightarrow> (case merkle_leaves ts of Inl e \<Rightarrow> Inl e | Inr hs \<Rightarrow> Inr (h # hs))))"

text \<open>The loop that combines neighbours, for a level of even length.\<close>

fun merkle_combine :: "string list \<Rightarrow> project_error_t + string list" where
  "merkle_combine (a # b # rest) =
     (case sha256_hex (Some (take SHA256_HEX_LENGTH a @ take SHA256_HEX_LENGTH b)) (SHA256_HEX_LENGTH * 2) of
        Inl e \<Rightarrow> Inl e
      | Inr h \<Rightarrow> (case merkle_combine rest of Inl e \<Rightarrow> Inl e | Inr hs \<Rightarrow> Inr (h # hs)))"
| "merkle_combine _ = Inr []"

text \<open>One pass of the loop: pad an odd level with the hash of the empty string, then combine.\<close>

definition merkle_pass :: "alloc \<Rightarrow> string list \<Rightarrow> project_error_t + string list" where
  "merkle_pass al level =
     (case (if odd (length level)
            then (case sha256_hex (Some []) 0 of Inl e \<Rightarrow> Inl e | Inr h \<Rightarrow> Inr (level @ [h]))
            else Inr level) of
        Inl e \<Rightarrow> Inl e
      | Inr even_level \<Rightarrow>
          if \<not> al ((length even_level div 2 + 1) * 65) then Inl ERR_MEMORY_ALLOCATION
          else merkle_combine even_level)"

lemma merkle_combine_length: "merkle_combine xs = Inr ys \<Longrightarrow> length ys = length xs div 2"
  by (induction xs arbitrary: ys rule: merkle_combine.induct) (auto split: sum.splits)

lemma merkle_pass_length: "merkle_pass al level = Inr up \<Longrightarrow> length up = (length level + 1) div 2"
  by (auto simp: merkle_pass_def split: sum.splits if_splits dest!: merkle_combine_length)

function merkle_loop :: "alloc \<Rightarrow> string list \<Rightarrow> project_error_t + string" where
  "merkle_loop al level =
     (case merkle_pass al level of
        Inl e \<Rightarrow> Inl e
      | Inr up \<Rightarrow> if 1 < length up then merkle_loop al up else Inr (hd up))"
  by pat_completeness auto
termination
  by (relation "measure (\<lambda>(al, level). length level)") (auto dest!: merkle_pass_length)

declare merkle_loop.simps [simp del]

definition calculate_merkle_root :: "alloc \<Rightarrow> string ptr list ptr \<Rightarrow> project_error_t + string" where
  "calculate_merkle_root al arr =
     (case arr of
        None \<Rightarrow> Inl ERR_INVALID_ARGUMENT
      | Some ts \<Rightarrow>
          if length ts = 0 then Inl ERR_INVALID_ARGUMENT
          else if \<not> al ((length ts + 1) * 65) then Inl ERR_MEMORY_ALLOCATION
          else (case merkle_leaves ts of Inl e \<Rightarrow> Inl e | Inr leaves \<Rightarrow> merkle_loop al leaves))"

text \<open>The text that is hashed, in the order of the fields.\<close>

definition hash_input_prefix :: "block_t \<Rightarrow> string" where
  "hash_input_prefix b =
     fmt_016x (index b) @ fmt_016x (timestamp b) @ previous_hash b @ merkle_root b @ fmt_016x (nonce b)"

definition hash_input :: "block_t \<Rightarrow> string" where
  "hash_input b = hash_input_prefix b @ join_transactions (txs b)"

definition build_block_hash_input :: "alloc \<Rightarrow> block_t ptr \<Rightarrow> project_error_t + string" where
  "build_block_hash_input al block =
     (case block of
        None \<Rightarrow> Inl ERR_INVALID_ARGUMENT
      | Some b \<Rightarrow>
          if length (previous_hash b) \<noteq> SHA256_HEX_LENGTH \<or> length (merkle_root b) \<noteq> SHA256_HEX_LENGTH
          then Inl ERR_INVALID_BLOCK
          else if transactions b = [] then Inl ERR_INVALID_BLOCK
          else if None \<in> set (transactions b) then Inl ERR_INVALID_TRANSACTION
          else (let transactions_length = sum_list (map length (txs b)) + 2 * (transaction_count b - 1);
                    fixed_length = 16 + 16 + SHA256_HEX_LENGTH + SHA256_HEX_LENGTH + 16;
                    total_length = fixed_length + transactions_length
                in if \<not> al (total_length + 1) then Inl ERR_MEMORY_ALLOCATION
                   else if length (hash_input_prefix b) \<noteq> fixed_length then Inl ERR_SERIALIZATION
                   else if length (hash_input b) \<noteq> total_length then Inl ERR_SERIALIZATION
                   else Inr (hash_input b)))"

definition calculate_block_hash :: "alloc \<Rightarrow> block_t ptr \<Rightarrow> project_error_t + string" where
  "calculate_block_hash al block =
     (case build_block_hash_input al block of
        Inl e \<Rightarrow> Inl e
      | Inr input \<Rightarrow> sha256_hex (Some input) (length input))"

section \<open>The digest as a function of the text\<close>

definition sha256_text :: "string \<Rightarrow> string" where
  "sha256_text s = digest_to_hex (sha256_reference (map of_char s))"

lemma sha256_hex_eq [simp]: "sha256_hex (Some s) n = Inr (sha256_text (take n s))"
proof -
  let ?ctx = "sha256_init \<lparr>ctx_data = replicate 64 0, datalen = 0, bitlen = 0, ctx_state = []\<rparr>"
  have h: "sha256_holds ?ctx []" by (rule sha256_holds_init) simp
  have "sha256_final (if 0 < n then sha256_update ?ctx (map of_char (take n s)) else ?ctx) =
        sha256_reference (map of_char (take n s))"
    using sha256_final_reference [OF h] sha256_final_reference [OF sha256_holds_update [OF h]] by simp
  then show ?thesis
    by (simp only: sha256_hex_def sha256_bytes_def Let_def sum.case option.distinct option.sel
        simp_thms if_False sha256_text_def)
qed

lemma nibble_less: "unat ((b :: u8) AND 0x0f) < 16"
proof -
  have "unat (b AND 15) \<le> unat (15 :: u8)"
    by (rule word_and_le1 [THEN word_le_nat_alt [THEN iffD1]])
  then show ?thesis by simp
qed

lemma length_digest_to_hex: "length (digest_to_hex d) = 2 * length d"
  by (induction d) (auto simp: digest_to_hex_def)

lemma digest_to_hex_lower: "list_all c_islower_hex (digest_to_hex d)"
  using nibble_less by (induction d) (auto simp: digest_to_hex_def)

lemma sha256_text_ok [simp]: "hash_ok (sha256_text s)"
  by (simp add: sha256_text_def hash_ok_def length_digest_to_hex digest_to_hex_lower)

lemma length_sha256_text [simp]: "length (sha256_text s) = 64"
  using sha256_text_ok [of s] by (simp add: hash_ok_def)

section \<open>Merkle trees over any digest\<close>

text \<open>
  The texts that one pass hashes, the level above, and the reference root: pair neighbours, pair a
  last odd element with the digest of the empty text, repeat until one digest is left.
\<close>

fun merkle_pair_inputs :: "(string \<Rightarrow> string) \<Rightarrow> string list \<Rightarrow> string list" where
  "merkle_pair_inputs H [] = []"
| "merkle_pair_inputs H [a] = [a @ H []]"
| "merkle_pair_inputs H (a # b # rest) = (a @ b) # merkle_pair_inputs H rest"

lemma length_merkle_pair_inputs [simp]:
  "length (merkle_pair_inputs H xs) = (length xs + 1) div 2"
  by (induction H xs rule: merkle_pair_inputs.induct) auto

lemma merkle_pair_inputs_Nil [simp]: "merkle_pair_inputs H xs = [] \<longleftrightarrow> xs = []"
  by (cases "(H, xs)" rule: merkle_pair_inputs.cases) auto

function merkle_reference :: "(string \<Rightarrow> string) \<Rightarrow> string list \<Rightarrow> string" where
  "merkle_reference H level =
     (let up = map H (merkle_pair_inputs H level)
      in if 1 < length up then merkle_reference H up else hd up)"
  by pat_completeness auto
termination
  by (relation "measure (\<lambda>(H, level). length level)") auto

declare merkle_reference.simps [simp del]

text \<open>All texts hashed above the leaves.\<close>

function merkle_inputs :: "(string \<Rightarrow> string) \<Rightarrow> string list \<Rightarrow> string list" where
  "merkle_inputs H level =
     (let ins = merkle_pair_inputs H level
      in if 1 < length ins then ins @ merkle_inputs H (map H ins) else ins)"
  by pat_completeness auto
termination
  by (relation "measure (\<lambda>(H, level). length level)") auto

declare merkle_inputs.simps [simp del]

text \<open>Two texts, one of each set, that differ and have the same digest.\<close>

definition clash :: "(string \<Rightarrow> string) \<Rightarrow> string set \<Rightarrow> string set \<Rightarrow> bool" where
  "clash H A B \<longleftrightarrow> (\<exists>x\<in>A. \<exists>y\<in>B. x \<noteq> y \<and> H x = H y)"

lemma clash_mono: "clash H A B \<Longrightarrow> A \<subseteq> A' \<Longrightarrow> B \<subseteq> B' \<Longrightarrow> clash H A' B'"
  by (force simp: clash_def)

lemma map_eq_or_clash: "map H xs = map H ys \<Longrightarrow> xs = ys \<or> clash H (set xs) (set ys)"
proof (induction xs arbitrary: ys)
  case (Cons x xs)
  then obtain y zs where ys: "ys = y # zs" "H x = H y" "map H xs = map H zs" by (cases ys) auto
  with Cons.IH [of zs] show ?case by (auto simp: clash_def)
qed simp

locale digest =
  fixes H :: "string \<Rightarrow> string"
  assumes digest_length: "length (H x) = SHA256_HEX_LENGTH"
begin

lemma pair_inputs_inj:
  assumes "length xs = length ys" "\<forall>x\<in>set xs. length x = 64" "\<forall>y\<in>set ys. length y = 64"
    "merkle_pair_inputs H xs = merkle_pair_inputs H ys"
  shows "xs = ys"
  using assms
proof (induction H xs arbitrary: ys rule: merkle_pair_inputs.induct)
  case (2 H a)
  then obtain b where "ys = [b]" by (cases ys) auto
  with 2 show ?case by simp
next
  case (3 H a b rest)
  then obtain c d more where ys: "ys = c # d # more" by (cases "(H, ys)" rule: merkle_pair_inputs.cases) auto
  with 3 show ?case by simp
qed simp

lemma reference_binds:
  assumes "length xs = length ys" "xs \<noteq> []" "\<forall>x\<in>set xs. length x = 64" "\<forall>y\<in>set ys. length y = 64"
    "merkle_reference H xs = merkle_reference H ys"
  shows "xs = ys \<or> clash H (set (merkle_inputs H xs)) (set (merkle_inputs H ys))"
  using assms
proof (induction "length xs" arbitrary: xs ys rule: less_induct)
  case less
  let ?xi = "merkle_pair_inputs H xs" and ?yi = "merkle_pair_inputs H ys"
  have xin: "set ?xi \<subseteq> set (merkle_inputs H xs)" and yin: "set ?yi \<subseteq> set (merkle_inputs H ys)"
    by (subst merkle_inputs.simps, auto simp: Let_def)+
  have same: "?xi = ?yi \<Longrightarrow> xs = ys"
    using pair_inputs_inj less.prems by blast
  show ?case
  proof (cases "1 < length ?xi")
    case False
    then have "length ?xi = 1" "length ?yi = 1" using less.prems(1,2) by (cases xs; simp)+
    then obtain u v where uv: "?xi = [u]" "?yi = [v]" by (metis One_nat_def length_0_conv length_Suc_conv)
    then have "H u = H v"
      using less.prems(5) by (simp add: merkle_reference.simps [of H xs] merkle_reference.simps [of H ys])
    then have "?xi = ?yi \<or> clash H (set ?xi) (set ?yi)" using uv by (auto simp: clash_def)
    then show ?thesis using same xin yin clash_mono by blast
  next
    case True
    then have yl: "1 < length ?yi" using less.prems(1) by simp
    have "merkle_reference H (map H ?xi) = merkle_reference H (map H ?yi)"
      using less.prems(5) True yl
      by (simp add: merkle_reference.simps [of H xs] merkle_reference.simps [of H ys] Let_def)
    moreover have "length (map H ?xi) < length xs" using True by simp
    ultimately have "map H ?xi = map H ?yi \<or>
        clash H (set (merkle_inputs H (map H ?xi))) (set (merkle_inputs H (map H ?yi)))"
      using less.prems(1) True by (intro less.hyps) (auto simp: digest_length)
    moreover have "set (merkle_inputs H (map H ?xi)) \<subseteq> set (merkle_inputs H xs)"
      "set (merkle_inputs H (map H ?yi)) \<subseteq> set (merkle_inputs H ys)"
      using True yl by (subst (2) merkle_inputs.simps, simp add: Let_def)+
    ultimately show ?thesis
      using map_eq_or_clash [of H ?xi ?yi] same xin yin clash_mono by blast
  qed
qed

text \<open>Roots of equally many texts: they bind the texts.\<close>

lemma root_binds:
  assumes "length ts = length us" "ts \<noteq> []"
    "merkle_reference H (map H ts) = merkle_reference H (map H us)"
  shows "ts = us \<or> clash H (set ts \<union> set (merkle_inputs H (map H ts)))
                           (set us \<union> set (merkle_inputs H (map H us)))"
proof -
  have "map H ts = map H us \<or> clash H (set (merkle_inputs H (map H ts))) (set (merkle_inputs H (map H us)))"
    using assms by (intro reference_binds) (auto simp: digest_length)
  then show ?thesis using map_eq_or_clash [of H ts us] clash_mono by (meson Un_upper1 Un_upper2)
qed

end

interpretation sha: digest sha256_text
  by unfold_locales simp

section \<open>The code computes the reference root\<close>

lemma merkle_leaves_eq:
  "None \<notin> set ps \<Longrightarrow> merkle_leaves ps = Inr (map sha256_text (map the ps))"
proof (induction ps)
  case (Cons p ps)
  then show ?case by (cases p) auto
qed simp

lemma merkle_leaves_None: "None \<in> set ps \<Longrightarrow> merkle_leaves ps = Inl ERR_INVALID_TRANSACTION"
  by (induction ps) (auto split: option.splits sum.splits)

lemma merkle_combine_eq:
  assumes "even (length xs)" "\<forall>x\<in>set xs. length x = 64"
  shows "merkle_combine xs = Inr (map sha256_text (merkle_pair_inputs sha256_text xs))"
  using assms by (induction xs rule: merkle_combine.induct) auto

lemma merkle_pair_inputs_odd:
  "odd (length xs) \<Longrightarrow> merkle_pair_inputs H (xs @ [H []]) = merkle_pair_inputs H xs"
  by (induction H xs rule: merkle_pair_inputs.induct) auto

lemma merkle_pass_eq:
  assumes "\<forall>x\<in>set xs. length x = 64"
  shows "merkle_pass al xs =
    (if al (((length xs + 1) div 2 + 1) * 65) then Inr (map sha256_text (merkle_pair_inputs sha256_text xs))
     else Inl ERR_MEMORY_ALLOCATION)"
proof (cases "odd (length xs)")
  case True
  then have "Suc (length xs) div 2 = (length xs + 1) div 2" by simp
  with True assms show ?thesis
    by (simp add: merkle_pass_def merkle_combine_eq merkle_pair_inputs_odd)
next
  case False
  then have "length xs div 2 = (length xs + 1) div 2" by (simp add: even_Suc_div_two)
  with False assms show ?thesis by (simp add: merkle_pass_def merkle_combine_eq)
qed

lemma merkle_loop_cases:
  assumes "\<forall>x\<in>set xs. length x = 64"
  shows "merkle_loop al xs \<in> {Inr (merkle_reference sha256_text xs), Inl ERR_MEMORY_ALLOCATION}
         \<and> (alloc_total al \<longrightarrow> merkle_loop al xs = Inr (merkle_reference sha256_text xs))"
  using assms
proof (induction "length xs" arbitrary: xs rule: less_induct)
  case less
  let ?up = "map sha256_text (merkle_pair_inputs sha256_text xs)"
  show ?case
  proof (cases "1 < length ?up")
    case True
    then have "length ?up < length xs" by simp
    then have "merkle_loop al ?up \<in> {Inr (merkle_reference sha256_text ?up), Inl ERR_MEMORY_ALLOCATION}
       \<and> (alloc_total al \<longrightarrow> merkle_loop al ?up = Inr (merkle_reference sha256_text ?up))"
      by (intro less.hyps) auto
    then show ?thesis
      using True less.prems
      by (simp add: merkle_loop.simps [of al xs] merkle_reference.simps [of sha256_text xs]
          merkle_pass_eq alloc_total_def)
  next
    case False
    then show ?thesis
      using less.prems
      by (simp add: merkle_loop.simps [of al xs] merkle_reference.simps [of sha256_text xs]
          merkle_pass_eq alloc_total_def)
  qed
qed

definition merkle_root_of :: "string list \<Rightarrow> string" where
  "merkle_root_of ts = merkle_reference sha256_text (map sha256_text ts)"

lemma calculate_merkle_root_cases:
  assumes "None \<notin> set ps" "ps \<noteq> []"
  shows "calculate_merkle_root al (Some ps) \<in> {Inr (merkle_root_of (map the ps)), Inl ERR_MEMORY_ALLOCATION}
         \<and> (alloc_total al \<longrightarrow> calculate_merkle_root al (Some ps) = Inr (merkle_root_of (map the ps)))"
proof -
  have "\<forall>x\<in>set (map sha256_text (map the ps)). length x = 64" by auto
  from merkle_loop_cases [OF this, of al] show ?thesis
    using assms by (auto simp: calculate_merkle_root_def merkle_leaves_eq merkle_root_of_def alloc_total_def)
qed

lemma merkle_reference_digest:
  "level \<noteq> [] \<Longrightarrow> \<exists>x. merkle_reference H level = H x"
proof (induction H level rule: merkle_reference.induct)
  case (1 H level)
  show ?case
  proof (cases "1 < length (merkle_pair_inputs H level)")
    case True
    then have "map H (merkle_pair_inputs H level) \<noteq> []" by (metis list.size(3) map_is_Nil_conv not_less_zero)
    with 1 True show ?thesis by (subst merkle_reference.simps) (simp add: Let_def)
  next
    case False
    from 1(2) obtain x rest where "merkle_pair_inputs H level = x # rest"
      by (cases "(H, level)" rule: merkle_pair_inputs.cases) auto
    with False show ?thesis by (subst merkle_reference.simps) auto
  qed
qed

lemma merkle_root_of_ok: "ts \<noteq> [] \<Longrightarrow> hash_ok (merkle_root_of ts)"
  using merkle_reference_digest [of "map sha256_text ts" sha256_text] sha256_text_ok
  by (fastforce simp: merkle_root_of_def)

section \<open>The hash of a block\<close>

definition block_hash :: "block_t \<Rightarrow> string" where
  "block_hash b = sha256_text (hash_input b)"

definition hashable :: "block_t \<Rightarrow> bool" where
  "hashable b \<longleftrightarrow> length (previous_hash b) = SHA256_HEX_LENGTH \<and> length (merkle_root b) = SHA256_HEX_LENGTH
     \<and> transactions b \<noteq> [] \<and> None \<notin> set (transactions b)"

lemma calculate_block_hash_eq:
  "hashable b \<Longrightarrow> calculate_block_hash al (Some b) =
     (if al (length (hash_input b) + 1) then Inr (block_hash b) else Inl ERR_MEMORY_ALLOCATION)"
  by (simp add: calculate_block_hash_def build_block_hash_input_def hashable_def hash_input_def
      hash_input_prefix_def Let_def length_join_transactions block_hash_def)

lemma calculate_block_hash_Inr:
  "calculate_block_hash al (Some b) = Inr h \<Longrightarrow> hashable b \<and> h = block_hash b"
  by (auto simp: calculate_block_hash_def build_block_hash_input_def hashable_def Let_def block_hash_def
      split: if_splits)

lemma parsed_hashable: "block_parsed b \<Longrightarrow> hashable b"
  by (auto simp: block_parsed_def hashable_def hash_ok_def block_wf_def list_all_iff tx_ptr_ok_def)

text \<open>The hashed text determines the block, when the transactions can be told apart.\<close>

lemma hash_input_inj:
  assumes "block_parsed a" "block_parsed b" "hash_input a = hash_input b"
  shows "a = b"
proof -
  have len: "length (previous_hash a) = 64" "length (merkle_root a) = 64"
    "length (previous_hash b) = 64" "length (merkle_root b) = 64"
    using assms by (simp_all add: block_parsed_def hash_ok_def)
  have eq: "index a = index b" "timestamp a = timestamp b" "previous_hash a = previous_hash b"
    "merkle_root a = merkle_root b" "nonce a = nonce b"
    "join_transactions (txs a) = join_transactions (txs b)"
    using assms(3) len by (simp_all add: hash_input_def hash_input_prefix_def fmt_016x_inj)
  have "txs a = txs b"
    using assms(1,2) eq(6) join_inj_separable [of "txs a" "txs b"] by (simp add: block_parsed_def)
  then have "transactions a = transactions b"
    using assms(1,2) transactions_map_Some by (metis block_parsed_def block_wf_def)
  with eq show ?thesis by (cases a; cases b) simp
qed

section \<open>Properties\<close>

text \<open>
  C18. The level-by-level loop of \<open>calculate_merkle_root\<close> computes the reference root: the digests of
  the transactions, paired neighbour by neighbour, an odd last one paired with the digest of the
  empty text, until one digest is left. A null array of transactions or one that holds a null
  pointer is refused. Only a failing allocation gives another result, and without one the result
  is always the reference.
\<close>

theorem merkle_root_correct:
  "(let expected = (if ps = [] then Inl ERR_INVALID_ARGUMENT
                    else if None \<in> set ps then Inl ERR_INVALID_TRANSACTION
                    else Inr (merkle_reference sha256_text (map sha256_text (map the ps))))
    in (calculate_merkle_root al (Some ps) = expected \<or> calculate_merkle_root al (Some ps) = Inl ERR_MEMORY_ALLOCATION)
       \<and> (alloc_total al \<longrightarrow> calculate_merkle_root al (Some ps) = expected))
   \<and> calculate_merkle_root al None = Inl ERR_INVALID_ARGUMENT"
proof (cases "ps = [] \<or> None \<in> set ps")
  case True
  then show ?thesis
    by (auto simp: calculate_merkle_root_def merkle_leaves_None alloc_total_def)
next
  case False
  then show ?thesis
    using calculate_merkle_root_cases [of ps al]
    by (auto simp: merkle_root_of_def calculate_merkle_root_def [of _ None])
qed

theorem merkle_root_correct_witness:
  "calculate_merkle_root no_oom (Some [Some ''a'', Some ''b'', Some ''c'']) =
     Inr (sha256_text (sha256_text (sha256_text ''a'' @ sha256_text ''b'')
                       @ sha256_text (sha256_text ''c'' @ sha256_text [])))"
proof -
  have "merkle_reference sha256_text [sha256_text ''a'', sha256_text ''b'', sha256_text ''c''] =
      sha256_text (sha256_text (sha256_text ''a'' @ sha256_text ''b'') @ sha256_text (sha256_text ''c'' @ sha256_text []))"
    by (subst merkle_reference.simps, simp, subst merkle_reference.simps, simp)
  then show ?thesis
    using merkle_root_correct [of "[Some ''a'', Some ''b'', Some ''c'']" no_oom] by (simp add: Let_def)
qed

text \<open>
  C19. A Merkle root binds the transactions: two lists of equally many transactions for which the
  code computes the same root are equal, or two different texts that were hashed on the way, one for
  each list, have the same digest.
\<close>

theorem merkle_root_binding:
  assumes "calculate_merkle_root al (Some (map Some ts)) = Inr root"
    "calculate_merkle_root al' (Some (map Some us)) = Inr root" "length ts = length us"
  shows "ts = us \<or> clash sha256_text (set ts \<union> set (merkle_inputs sha256_text (map sha256_text ts)))
                                     (set us \<union> set (merkle_inputs sha256_text (map sha256_text us)))"
proof -
  have ne: "ts \<noteq> []" using assms(1) by (auto simp: calculate_merkle_root_def)
  then have "us \<noteq> []" using assms(3) by auto
  with ne have "root = merkle_root_of ts" "root = merkle_root_of us"
    using assms(1,2) calculate_merkle_root_cases [of "map Some ts" al]
      calculate_merkle_root_cases [of "map Some us" al'] by (auto simp: comp_def)
  then show ?thesis using sha.root_binds [OF assms(3) ne] by (simp add: merkle_root_of_def)
qed

theorem merkle_root_binding_witness:
  "\<exists>r. calculate_merkle_root no_oom (Some (map Some [''a'', ''b''])) = Inr r
     \<and> ([''a'', ''b''] = [''a'', ''b'']
         \<or> clash sha256_text (set [''a'', ''b''] \<union> set (merkle_inputs sha256_text (map sha256_text [''a'', ''b''])))
                             (set [''a'', ''b''] \<union> set (merkle_inputs sha256_text (map sha256_text [''a'', ''b'']))))"
proof -
  obtain r where r: "calculate_merkle_root no_oom (Some (map Some [''a'', ''b''])) = Inr r"
    using calculate_merkle_root_cases [of "map Some [''a'', ''b'']" no_oom] by auto
  with merkle_root_binding [OF r r refl] show ?thesis by blast
qed

text \<open>
  C20. The hash of a block: \<open>calculate_block_hash\<close> is the digest of the fields in order (index,
  timestamp, previous hash, Merkle root, nonce, transactions), the two serialization errors do not
  occur, and a block without two 64-character hashes, without transactions, or with a null
  transaction is refused. Two parsed blocks with the same hash are equal or their texts collide.
\<close>

theorem block_hash_correct:
  "calculate_block_hash al (Some b) =
     (if length (previous_hash b) \<noteq> 64 \<or> length (merkle_root b) \<noteq> 64 \<or> transactions b = [] then Inl ERR_INVALID_BLOCK
      else if None \<in> set (transactions b) then Inl ERR_INVALID_TRANSACTION
      else if \<not> al (length (hash_input b) + 1) then Inl ERR_MEMORY_ALLOCATION
      else Inr (sha256_text (hash_input b)))
   \<and> (block_parsed b \<and> block_parsed c \<and> sha256_text (hash_input b) = sha256_text (hash_input c) \<longrightarrow>
      b = c \<or> clash sha256_text {hash_input b} {hash_input c})"
proof
  show "calculate_block_hash al (Some b) =
     (if length (previous_hash b) \<noteq> 64 \<or> length (merkle_root b) \<noteq> 64 \<or> transactions b = [] then Inl ERR_INVALID_BLOCK
      else if None \<in> set (transactions b) then Inl ERR_INVALID_TRANSACTION
      else if \<not> al (length (hash_input b) + 1) then Inl ERR_MEMORY_ALLOCATION
      else Inr (sha256_text (hash_input b)))"
    by (simp add: calculate_block_hash_def build_block_hash_input_def hash_input_def
      hash_input_prefix_def Let_def length_join_transactions)
  show "block_parsed b \<and> block_parsed c \<and> sha256_text (hash_input b) = sha256_text (hash_input c) \<longrightarrow>
      b = c \<or> clash sha256_text {hash_input b} {hash_input c}"
    using hash_input_inj by (auto simp: clash_def)
qed

theorem block_hash_correct_witness:
  "calculate_block_hash no_oom (Some (sample_block [''x''])) = Inr (sha256_text (hash_input (sample_block [''x''])))"
  using block_hash_correct [of no_oom "sample_block [''x'']" "sample_block [''x'']"] by (simp add: sample_block_def)

end
