(* ===== verification/Blockchain.thy ===== *)
theory Blockchain
  imports Crypto
begin

text \<open>
  The chain container (\<^verbatim>\<open>include/blockchain.h\<close>, \<^verbatim>\<open>common/blockchain.c\<close>): a growing array of
  blocks, linear lookup by index and by hash, and the CSV file of a whole chain. The live prefix of
  the array is the list \<open>blocks\<close>, its length is the counter \<open>count\<close>; the array is null while the
  capacity is 0.
\<close>

section \<open>Container\<close>

abbreviation INITIAL_BLOCKCHAIN_CAPACITY :: nat where
  "INITIAL_BLOCKCHAIN_CAPACITY \<equiv> 4"

text \<open>Size of a block structure on a 64-bit machine, for the requests to the allocator.\<close>

abbreviation sizeof_block :: nat where
  "sizeof_block \<equiv> 176"

record blockchain_t =
  blocks :: "block_t list"
  capacity :: nat

abbreviation chain_count :: "blockchain_t \<Rightarrow> nat" where
  "chain_count c \<equiv> length (blocks c)"

definition chain_zero :: blockchain_t where
  "chain_zero = \<lparr>blocks = [], capacity = 0\<rparr>"

definition blockchain_init :: "blockchain_t ptr \<Rightarrow> project_error_t \<times> blockchain_t ptr" where
  "blockchain_init chain =
     (case chain of
        None \<Rightarrow> (ERR_INVALID_ARGUMENT, None)
      | Some c \<Rightarrow> (PROJECT_OK, Some (c\<lparr>blocks := [], capacity := 0\<rparr>)))"

definition blockchain_destroy :: "blockchain_t ptr \<Rightarrow> blockchain_t ptr" where
  "blockchain_destroy chain =
     (case chain of None \<Rightarrow> None | Some c \<Rightarrow> Some (c\<lparr>blocks := [], capacity := 0\<rparr>))"

definition blockchain_grow :: "alloc \<Rightarrow> blockchain_t ptr \<Rightarrow> project_error_t \<times> blockchain_t ptr" where
  "blockchain_grow al chain =
     (case chain of
        None \<Rightarrow> (ERR_INVALID_ARGUMENT, None)
      | Some c \<Rightarrow>
          let new_capacity = (if capacity c = 0 then INITIAL_BLOCKCHAIN_CAPACITY else capacity c * 2)
          in if \<not> al (new_capacity * sizeof_block) then (ERR_MEMORY_ALLOCATION, chain)
             else (PROJECT_OK, Some (c\<lparr>capacity := new_capacity\<rparr>)))"

text \<open>
  The new slot is initialised and filled by \<open>block_copy\<close>; when that fails the slot is destroyed and
  the counter stays.
\<close>

definition blockchain_append ::
  "alloc \<Rightarrow> blockchain_t ptr \<Rightarrow> block_t ptr \<Rightarrow> project_error_t \<times> blockchain_t ptr" where
  "blockchain_append al chain block =
     (case (chain, block) of
        (Some c, Some b) \<Rightarrow>
          (case (if chain_count c = capacity c then blockchain_grow al chain else (PROJECT_OK, chain)) of
             (rc, chain') \<Rightarrow>
               if rc \<noteq> PROJECT_OK then (rc, chain')
               else (case block_copy al (snd (block_init (Some block_zero))) block of
                       (rc, slot) \<Rightarrow>
                         if rc \<noteq> PROJECT_OK then (rc, chain')
                         else (PROJECT_OK,
                               map_option (\<lambda>c'. c'\<lparr>blocks := blocks c' @ [the slot]\<rparr>) chain')))
      | _ \<Rightarrow> (ERR_INVALID_ARGUMENT, chain))"

text \<open>A found block is returned as its position, which stands for the pointer into the array.\<close>

definition blockchain_get_by_index :: "blockchain_t ptr \<Rightarrow> u64 \<Rightarrow> nat option" where
  "blockchain_get_by_index chain idx =
     (case chain of None \<Rightarrow> None | Some c \<Rightarrow> find_position (\<lambda>b. index b = idx) 0 (blocks c))"

definition blockchain_get_by_hash :: "alloc \<Rightarrow> blockchain_t ptr \<Rightarrow> string ptr \<Rightarrow> nat option" where
  "blockchain_get_by_hash al chain hash =
     (case (chain, hash) of
        (Some c, Some h) \<Rightarrow>
          if length h \<noteq> SHA256_HEX_LENGTH then None
          else find_position (\<lambda>b. calculate_block_hash al (Some b) = Inr h) 0 (blocks c)
      | _ \<Rightarrow> None)"

section \<open>Files\<close>

abbreviation BLOCKCHAIN_CSV_HEADER :: string where
  "BLOCKCHAIN_CSV_HEADER \<equiv> ''index,timestamp,prev_hash,merkle_root,nonce,transactions''"

abbreviation MAX_BLOCK_CSV_LINE_LENGTH :: nat where
  "MAX_BLOCK_CSV_LINE_LENGTH \<equiv> 8192"

text \<open>
  What the environment answers while one file is written: whether it opens, whether the n-th
  \<open>fprintf\<close> succeeds, whether it closes. The result of saving is the status and the text written.
\<close>

record wfile =
  w_open :: bool
  w_print :: "nat \<Rightarrow> bool"
  w_close :: bool

fun save_blocks :: "alloc \<Rightarrow> wfile \<Rightarrow> nat \<Rightarrow> block_t list \<Rightarrow> string \<Rightarrow> project_error_t \<times> string" where
  "save_blocks al w i [] out = (if w_close w then (PROJECT_OK, out) else (ERR_FILE_WRITE, out))"
| "save_blocks al w i (b # bs) out =
     (case block_to_csv al (Some b) of
        Inl e \<Rightarrow> (e, out)
      | Inr line \<Rightarrow>
          if \<not> w_print w i then (ERR_FILE_WRITE, out)
          else save_blocks al w (Suc i) bs (out @ line @ [CHR 0x0A]))"

definition blockchain_save_csv ::
  "alloc \<Rightarrow> wfile \<Rightarrow> blockchain_t ptr \<Rightarrow> string ptr \<Rightarrow> project_error_t \<times> string" where
  "blockchain_save_csv al w chain path =
     (case (chain, path) of
        (Some c, Some p) \<Rightarrow>
          if 0 < chain_count c \<and> capacity c = 0 then (ERR_INVALID_BLOCKCHAIN, [])
          else if \<not> w_open w then (ERR_FILE_OPEN, [])
          else if \<not> w_print w 0 then (ERR_FILE_WRITE, [])
          else save_blocks al w 1 (blocks c) (BLOCKCHAIN_CSV_HEADER @ [CHR 0x0A])
      | _ \<Rightarrow> (ERR_INVALID_ARGUMENT, []))"

text \<open>
  A file that was opened for reading: its text, whether reading past the text reports an error
  instead of the end, and whether it closes.
\<close>

record rfile =
  r_text :: string
  r_error :: bool
  r_close :: bool

text \<open>
  \<open>fgets\<close> with a buffer of \<open>n\<close> bytes: at most \<open>n - 1\<close> characters, up to and including a newline.
  The result is the buffer, the rest of the text, and whether the end of the text was met. In
  \<open>read_line\<close>, \<open>None\<close> is the null pointer: nothing could be read, or the reading failed where the
  text ends.
\<close>

fun fgets :: "nat \<Rightarrow> string \<Rightarrow> string \<times> string \<times> bool" where
  "fgets 0 s = ([], s, False)"
| "fgets (Suc n) [] = ([], [], True)"
| "fgets (Suc n) (c # s) =
     (if c = CHR 0x0A then ([c], s, False)
      else (case fgets n s of (l, r, e) \<Rightarrow> (c # l, r, e)))"

definition read_line :: "bool \<Rightarrow> nat \<Rightarrow> string \<Rightarrow> (string \<times> string \<times> bool) option" where
  "read_line err n s =
     (if s = [] then None
      else (case fgets (n - 1) s of (l, r, e) \<Rightarrow> if e \<and> err then None else Some (l, r, e)))"

lemma fgets_rest_length: "length (fst (snd (fgets n s))) \<le> length s"
  by (induction n s rule: fgets.induct) (auto split: prod.splits)

lemma fgets_rest_less:
  "fgets (Suc n) s = (l, r, e) \<Longrightarrow> s \<noteq> [] \<Longrightarrow> length r < length s"
proof (cases s)
  case (Cons c t)
  assume "fgets (Suc n) s = (l, r, e)"
  then show ?thesis using fgets_rest_length [of n t] Cons by (auto split: if_splits prod.splits)
qed simp

text \<open>The line as the code sees it after it cut the line ending off.\<close>

definition chomp :: "string \<Rightarrow> string" where
  "chomp buf = (let line = cstr buf in take (strcspn line [CHR 0x0D, CHR 0x0A]) line)"

text \<open>The loop of \<open>blockchain_load_csv\<close> over the lines after the header.\<close>

function load_lines :: "alloc \<Rightarrow> bool \<Rightarrow> string \<Rightarrow> blockchain_t \<Rightarrow> project_error_t + blockchain_t" where
  "load_lines al err s loaded =
     (case read_line err MAX_BLOCK_CSV_LINE_LENGTH s of
        None \<Rightarrow> Inr loaded
      | Some (buf, rest, eof) \<Rightarrow>
          if strchr (cstr buf) (CHR 0x0A) = None \<and> \<not> eof then Inl ERR_FILE_FORMAT
          else if chomp buf = [] then load_lines al err rest loaded
          else (case block_from_csv al (Some (chomp buf)) of
                  Inl e \<Rightarrow> Inl e
                | Inr b \<Rightarrow>
                    (case blockchain_append al (Some loaded) (Some b) of
                       (rc, loaded') \<Rightarrow>
                         if rc \<noteq> PROJECT_OK then Inl rc else load_lines al err rest (the loaded'))))"
  by pat_completeness auto
termination
  by (relation "measure (\<lambda>(al, err, s, c). length s)")
    (auto simp: read_line_def numeral_eq_Suc split: if_splits prod.splits dest: fgets_rest_less)

declare load_lines.simps [simp del]

definition blockchain_load_csv ::
  "alloc \<Rightarrow> rfile option \<Rightarrow> blockchain_t ptr \<Rightarrow> string ptr \<Rightarrow> project_error_t \<times> blockchain_t ptr" where
  "blockchain_load_csv al file chain path =
     (case (chain, path) of
        (Some c, Some p) \<Rightarrow>
          (case file of
             None \<Rightarrow> (ERR_FILE_OPEN, chain)
           | Some f \<Rightarrow>
               (case read_line (r_error f) MAX_BLOCK_CSV_LINE_LENGTH (r_text f) of
                  None \<Rightarrow> (ERR_FILE_READ, chain)
                | Some (buf, rest, eof) \<Rightarrow>
                    if strchr (cstr buf) (CHR 0x0A) = None \<and> \<not> eof then (ERR_FILE_FORMAT, chain)
                    else if chomp buf \<noteq> BLOCKCHAIN_CSV_HEADER then (ERR_FILE_FORMAT, chain)
                    else (case load_lines al (r_error f) rest chain_zero of
                            Inl e \<Rightarrow> (e, chain)
                          | Inr loaded \<Rightarrow>
                              if r_error f then (ERR_FILE_READ, chain)
                              else if \<not> r_close f then (ERR_FILE_READ, chain)
                              else if chain_count loaded = 0 then (ERR_FILE_FORMAT, chain)
                              else (PROJECT_OK, Some loaded))))
      | _ \<Rightarrow> (ERR_INVALID_ARGUMENT, chain))"

section \<open>Facts on the container\<close>

text \<open>The invariant of a chain: the counter stays within the capacity, every block is well-formed.\<close>

definition chain_wf :: "blockchain_t \<Rightarrow> bool" where
  "chain_wf c \<longleftrightarrow> chain_count c \<le> capacity c \<and> list_all block_wf (blocks c)"

lemma chain_wf_zero [simp, wf_intros]: "chain_wf chain_zero"
  by (simp add: chain_wf_def chain_zero_def)

lemma blocks_chain_zero [simp]: "blocks chain_zero = []"
  by (simp add: chain_zero_def)

lemma blockchain_grow_wf:
  assumes "blockchain_grow al (Some c) = (rc, r)"
  obtains c' where "r = Some c'" "blocks c' = blocks c" "capacity c \<le> capacity c'"
    "rc = PROJECT_OK \<Longrightarrow> capacity c < capacity c'"
  using assms that by (auto simp: blockchain_grow_def Let_def split: if_splits)

lemma blockchain_append_OK:
  assumes "blockchain_append al (Some c) (Some b) = (PROJECT_OK, r)"
  obtains c' where "r = Some c'" "blocks c' = blocks c @ [b]" "block_wf b"
    "chain_wf c \<Longrightarrow> chain_wf c'"
proof -
  define g where "g = (if chain_count c = capacity c then blockchain_grow al (Some c) else (PROJECT_OK, Some c))"
  obtain rc1 c1 where g1: "g = (rc1, Some c1)" "blocks c1 = blocks c" "capacity c \<le> capacity c1"
    "rc1 = PROJECT_OK \<Longrightarrow> chain_count c = capacity c \<Longrightarrow> capacity c < capacity c1"
  proof (cases "chain_count c = capacity c")
    case True
    obtain rc1 r1 where gr: "blockchain_grow al (Some c) = (rc1, r1)" by fastforce
    then obtain c1 where "r1 = Some c1" "blocks c1 = blocks c" "capacity c \<le> capacity c1"
      "rc1 = PROJECT_OK \<Longrightarrow> capacity c < capacity c1" using blockchain_grow_wf by metis
    with True gr that show thesis by (simp add: g_def)
  qed (auto simp: g_def)
  obtain slot where slot: "block_copy al (Some block_zero) (Some b) = (PROJECT_OK, slot)"
    and rc1: "rc1 = PROJECT_OK" and r: "r = Some (c1\<lparr>blocks := blocks c1 @ [the slot]\<rparr>)"
    using assms g1(1)
    by (auto simp: blockchain_append_def g_def [symmetric] split: prod.splits if_splits)
  note bc = block_copy_OK [OF slot]
  have "chain_wf (c1\<lparr>blocks := blocks c1 @ [b]\<rparr>)" if "chain_wf c"
    using that g1 rc1 bc(2) by (cases "chain_count c = capacity c") (auto simp: chain_wf_def)
  with that r g1(2) bc show thesis by simp
qed

lemma blockchain_append_error:
  assumes "blockchain_append al (Some c) (Some b) = (rc, r)" "rc \<noteq> PROJECT_OK"
  obtains c' where "r = Some c'" "blocks c' = blocks c" "capacity c \<le> capacity c'"
  using assms that
  by (auto simp: blockchain_append_def split: prod.splits if_splits elim!: blockchain_grow_wf)

lemma blockchain_append_total:
  assumes "alloc_total al" "block_wf b"
  shows "fst (blockchain_append al (Some c) (Some b)) = PROJECT_OK"
  using assms
  by (auto simp: blockchain_append_def blockchain_grow_def block_copy_total Let_def alloc_total_def
      split: prod.splits)

lemma blockchain_append_cases [case_names ok error]:
  assumes "blockchain_append al (Some c) (Some b) = (rc, r)"
  obtains (ok) c' where "rc = PROJECT_OK" "r = Some c'" "blocks c' = blocks c @ [b]" "block_wf b"
    "chain_wf c \<Longrightarrow> chain_wf c'"
  | (error) c' where "rc \<noteq> PROJECT_OK" "r = Some c'" "blocks c' = blocks c" "chain_wf c \<Longrightarrow> chain_wf c'"
proof (cases "rc = PROJECT_OK")
  case True
  then show thesis using assms blockchain_append_OK ok by metis
next
  case False
  then obtain c' where "r = Some c'" "blocks c' = blocks c" "capacity c \<le> capacity c'"
    using assms blockchain_append_error by metis
  with False show thesis by (intro error [of c']) (auto simp: chain_wf_def)
qed

text \<open>The array lies within the address space, so that positions fit into an index.\<close>

definition chain_fits :: "blockchain_t \<Rightarrow> bool" where
  "chain_fits c \<longleftrightarrow> capacity c * sizeof_block < 2 ^ 64"

lemma chain_fits_zero [simp, wf_intros]: "chain_fits chain_zero"
  by (simp add: chain_fits_def chain_zero_def)

lemma chain_fits_count: "chain_wf c \<Longrightarrow> chain_fits c \<Longrightarrow> chain_count c < 2 ^ 64"
  by (simp add: chain_wf_def chain_fits_def)

lemma blockchain_append_fits:
  "alloc_fits al \<Longrightarrow> chain_fits c \<Longrightarrow> blockchain_append al (Some c) (Some b) = (rc, Some c') \<Longrightarrow> chain_fits c'"
  by (auto simp: blockchain_append_def blockchain_grow_def chain_fits_def alloc_fits_def Let_def
      split: prod.splits if_splits)

section \<open>Saving and loading\<close>

definition file_text :: "block_t list \<Rightarrow> string" where
  "file_text bs = BLOCKCHAIN_CSV_HEADER @ [CHR 0x0A] @ concat (map (\<lambda>b. csv_line b @ [CHR 0x0A]) bs)"

text \<open>The environment in which no file operation fails.\<close>

definition w_good :: wfile where
  "w_good = \<lparr>w_open = True, w_print = (\<lambda>_. True), w_close = True\<rparr>"

definition r_good :: "string \<Rightarrow> rfile" where
  "r_good s = \<lparr>r_text = s, r_error = False, r_close = True\<rparr>"

definition blocks_storable :: "block_t list \<Rightarrow> bool" where
  "blocks_storable bs \<longleftrightarrow>
     bs \<noteq> [] \<and> list_all (\<lambda>b. block_printable b \<and> separable (txs b) \<and> block_cstrings b) bs"

lemma save_blocks_good:
  assumes "alloc_total al" "list_all block_printable bs"
  shows "save_blocks al w_good i bs out =
           (PROJECT_OK, out @ concat (map (\<lambda>b. csv_line b @ [CHR 0x0A]) bs))"
  using assms(2)
proof (induction bs arbitrary: i out)
  case (Cons b bs)
  then have "block_to_csv al (Some b) = Inr (csv_line b)"
    using assms(1) by (simp add: block_to_csv_Inr alloc_total_def)
  with Cons show ?case by (simp add: w_good_def)
qed (simp add: w_good_def)

lemma fgets_line:
  assumes "CHR 0x0A \<notin> set l" "length l < n"
  shows "fgets n (l @ CHR 0x0A # r) = (l @ [CHR 0x0A], r, False)"
  using assms
proof (induction l arbitrary: n)
  case Nil
  then show ?case by (cases n) auto
next
  case (Cons c l)
  then show ?case by (cases n) auto
qed

lemma read_line_line:
  assumes "CHR 0x0A \<notin> set l" "length l < 8191"
  shows "read_line err MAX_BLOCK_CSV_LINE_LENGTH (l @ CHR 0x0A # r) = Some (l @ [CHR 0x0A], r, False)"
  using fgets_line [OF assms] by (simp add: read_line_def)

lemma chomp_line:
  assumes "is_cstring l" "CHR 0x0A \<notin> set l" "CHR 0x0D \<notin> set l"
  shows "chomp (l @ [CHR 0x0A]) = l"
proof -
  have "cstr (l @ [CHR 0x0A]) = l @ [CHR 0x0A]" using assms by simp
  then show ?thesis
    using takeWhile_stop_newline [OF assms(2,3), of "[CHR 0x0A]"] by (simp add: chomp_def)
qed

lemma load_lines_step:
  assumes al: "alloc_total al"
    and b: "block_printable b" "separable (txs b)" "block_cstrings b"
  obtains c' where "blocks c' = blocks c @ [b]" "chain_wf c \<Longrightarrow> chain_wf c'"
    "load_lines al err (csv_line b @ CHR 0x0A # rest) c = load_lines al err rest c'"
proof -
  let ?l = "csv_line b"
  have nl: "CHR 0x0A \<notin> set ?l" "CHR 0x0D \<notin> set ?l" using csv_line_no_newline [OF b(1)] .
  have cs: "is_cstring ?l" using csv_line_cstring [OF b(1,3)] .
  have rd: "read_line err MAX_BLOCK_CSV_LINE_LENGTH (?l @ CHR 0x0A # rest) = Some (?l @ [CHR 0x0A], rest, False)"
    using length_csv_line_le [OF b(1)] by (intro read_line_line nl) simp
  have ne: "?l \<noteq> []" by (simp add: csv_line_def)
  have parse: "block_from_csv al (Some ?l) = Inr b"
    using block_from_csv_line [OF al b(1,2), of "[]"] by simp
  obtain rc r where app: "blockchain_append al (Some c) (Some b) = (rc, r)" by fastforce
  then have rc: "rc = PROJECT_OK"
    using blockchain_append_total [OF al block_printable_wf [OF b(1)], of c] by simp
  with app obtain c' where c': "r = Some c'" "blocks c' = blocks c @ [b]" "chain_wf c \<Longrightarrow> chain_wf c'"
    using blockchain_append_OK by metis
  have "cstr (?l @ [CHR 0x0A]) = ?l @ [CHR 0x0A]" using cs by simp
  then have "load_lines al err (?l @ CHR 0x0A # rest) c = load_lines al err rest c'"
    using app rc c'(1) ne parse
    by (subst load_lines.simps) (simp add: rd chomp_line [OF cs nl])
  with that c' show thesis by blast
qed

lemma load_lines_all:
  assumes "alloc_total al" "list_all (\<lambda>b. block_printable b \<and> separable (txs b) \<and> block_cstrings b) bs"
  shows "\<exists>c'. load_lines al err (concat (map (\<lambda>b. csv_line b @ [CHR 0x0A]) bs)) c = Inr c' \<and>
              blocks c' = blocks c @ bs \<and> (chain_wf c \<longrightarrow> chain_wf c')"
  using assms(2)
proof (induction bs arbitrary: c)
  case Nil
  show ?case by (subst load_lines.simps) (simp add: read_line_def)
next
  case (Cons b bs)
  let ?rest = "concat (map (\<lambda>b. csv_line b @ [CHR 0x0A]) bs)"
  from Cons.prems have b: "block_printable b" "separable (txs b)" "block_cstrings b" by auto
  obtain c1 where c1: "blocks c1 = blocks c @ [b]" "chain_wf c \<Longrightarrow> chain_wf c1"
    "load_lines al err (csv_line b @ CHR 0x0A # ?rest) c = load_lines al err ?rest c1"
    using load_lines_step [OF assms(1) b] by metis
  from Cons obtain c' where "load_lines al err ?rest c1 = Inr c'" "blocks c' = blocks c1 @ bs"
    "chain_wf c1 \<longrightarrow> chain_wf c'" by fastforce
  with c1 show ?case by simp
qed

lemma load_saved_file:
  assumes "alloc_total al" "blocks_storable bs"
  obtains c' where "blockchain_load_csv al (Some (r_good (file_text bs))) (Some c) (Some path) = (PROJECT_OK, Some c')"
    "blocks c' = bs" "chain_wf c'"
proof -
  let ?rest = "concat (map (\<lambda>b. csv_line b @ [CHR 0x0A]) bs)"
  have ls: "list_all (\<lambda>b. block_printable b \<and> separable (txs b) \<and> block_cstrings b) bs" "bs \<noteq> []"
    using assms(2) by (simp_all add: blocks_storable_def)
  obtain c' where c': "load_lines al False ?rest chain_zero = Inr c'" "blocks c' = bs" "chain_wf c'"
    using load_lines_all [OF assms(1) ls(1), of False chain_zero] by auto
  have "read_line False MAX_BLOCK_CSV_LINE_LENGTH (BLOCKCHAIN_CSV_HEADER @ CHR 0x0A # ?rest) =
        Some (BLOCKCHAIN_CSV_HEADER @ [CHR 0x0A], ?rest, False)"
    by (intro read_line_line) simp_all
  moreover have "chomp (BLOCKCHAIN_CSV_HEADER @ [CHR 0x0A]) = BLOCKCHAIN_CSV_HEADER"
    by (intro chomp_line) simp_all
  moreover have "strchr (cstr (BLOCKCHAIN_CSV_HEADER @ [CHR 0x0A])) (CHR 0x0A) \<noteq> None"
    by (simp add: cstr_def)
  ultimately have "blockchain_load_csv al (Some (r_good (file_text bs))) (Some c) (Some path) = (PROJECT_OK, Some c')"
    using c' ls(2) unfolding blockchain_load_csv_def file_text_def r_good_def
    by (simp only: option.case prod.case rfile.select_convs append_Cons append_Nil simp_thms if_False sum.case)
      simp
  with that c' show thesis by blast
qed

text \<open>The writer and the reader of chain files satisfy the codec contract on lists of blocks.\<close>

definition save_file :: "block_t list \<Rightarrow> project_error_t + string" where
  "save_file bs =
     (case blockchain_save_csv no_oom w_good (Some \<lparr>blocks = bs, capacity = length bs\<rparr>) (Some ''chain.csv'') of
        (rc, text) \<Rightarrow> if rc = PROJECT_OK then Inr text else Inl rc)"

definition load_file :: "string \<Rightarrow> project_error_t + block_t list" where
  "load_file text =
     (case blockchain_load_csv no_oom (Some (r_good text)) (Some chain_zero) (Some ''chain.csv'') of
        (rc, c) \<Rightarrow> if rc = PROJECT_OK then Inr (blocks (the c)) else Inl rc)"

lemma save_csv_good:
  assumes "alloc_total al" "list_all block_printable (blocks c)" "chain_wf c"
  shows "blockchain_save_csv al w_good (Some c) (Some p) = (PROJECT_OK, file_text (blocks c))"
  using assms
  by (auto simp: blockchain_save_csv_def save_blocks_good file_text_def chain_wf_def)
    (simp_all add: w_good_def)

lemma load_file_text: "blocks_storable bs \<Longrightarrow> load_file (file_text bs) = Inr bs"
proof -
  assume bs: "blocks_storable bs"
  obtain c' where "blockchain_load_csv no_oom (Some (r_good (file_text bs))) (Some chain_zero)
      (Some ''chain.csv'') = (PROJECT_OK, Some c')" "blocks c' = bs"
    using load_saved_file [OF alloc_total_no_oom bs] by metis
  then show ?thesis by (simp add: load_file_def)
qed

interpretation chain_file: codec save_file load_file blocks_storable
proof
  fix bs assume bs: "blocks_storable bs"
  then have "list_all block_printable bs" "list_all block_wf bs"
    by (auto simp: blocks_storable_def list_all_iff intro: block_printable_wf)
  then have "save_file bs = Inr (file_text bs)"
    by (simp add: save_file_def save_csv_good chain_wf_def)
  moreover have "load_file (file_text bs) = Inr bs" using bs by (rule load_file_text)
  ultimately show "\<exists>y. save_file bs = Inr y \<and> load_file y = Inr bs" by blast
qed

section \<open>What a loaded chain satisfies\<close>

text \<open>Every block that was read from text can be told apart from others and holds C strings only.\<close>

definition block_clean :: "block_t \<Rightarrow> bool" where
  "block_clean b \<longleftrightarrow> block_parsed b \<and> block_cstrings b"

lemma block_from_csv_clean: "block_from_csv al (Some l) = Inr b \<Longrightarrow> is_cstring l \<Longrightarrow> block_clean b"
  using block_from_csv_parsed block_from_csv_cstring
  by (auto simp: block_clean_def block_cstrings_def list_all_iff)

lemma is_cstring_chomp [simp]: "is_cstring (chomp buf)"
  by (simp add: chomp_def Let_def)

lemma load_lines_clean:
  "load_lines al err s c = Inr c' \<Longrightarrow> list_all block_clean (blocks c) \<and> chain_wf c \<Longrightarrow>
   list_all block_clean (blocks c') \<and> chain_wf c'"
proof (induction al err s c rule: load_lines.induct)
  case (1 al err s c)
  show ?case
  proof (cases "read_line err MAX_BLOCK_CSV_LINE_LENGTH s")
    case None
    with 1(3,4) show ?thesis by (subst (asm) load_lines.simps) simp
  next
    case (Some x)
    obtain buf rest eof where x: "x = (buf, rest, eof)" by (metis prod_cases3)
    have f: "\<not> (strchr (cstr buf) (CHR 0x0A) = None \<and> \<not> eof)"
      using 1(3) Some x by (subst (asm) load_lines.simps) (auto split: if_splits)
    show ?thesis
    proof (cases "chomp buf = []")
      case True
      then have "load_lines al err rest c = Inr c'"
        using 1(3) Some x f by (subst (asm) load_lines.simps) (simp split: if_splits)
      with 1(1) [OF Some x [symmetric] refl f True] 1(4) show ?thesis by simp
    next
      case False
      obtain b where b: "block_from_csv al (Some (chomp buf)) = Inr b"
        using 1(3) Some x f False
        by (subst (asm) load_lines.simps) (auto split: sum.splits if_splits)
      obtain rc c1 where app: "blockchain_append al (Some c) (Some b) = (rc, c1)" by fastforce
      have rc: "rc = PROJECT_OK" and rest: "load_lines al err rest (the c1) = Inr c'"
        using 1(3) Some x f False b app
        by (subst (asm) load_lines.simps, auto split: if_splits)+
      obtain c2 where c2: "c1 = Some c2" "blocks c2 = blocks c @ [b]" "chain_wf c \<Longrightarrow> chain_wf c2"
        using app rc by (auto elim: blockchain_append_OK)
      with block_from_csv_clean [OF b] 1(4) have "list_all block_clean (blocks c2) \<and> chain_wf c2" by simp
      with 1(2) [OF Some x [symmetric] refl f False b app [symmetric]] rc rest c2 show ?thesis by simp
    qed
  qed
qed

lemma load_lines_not_OK: "load_lines al err s c \<noteq> Inl PROJECT_OK"
proof (induction al err s c rule: load_lines.induct)
  case (1 al err s c)
  then show ?case
    using block_from_csv_not_OK
    by (subst load_lines.simps) (auto split: option.splits prod.splits sum.splits)
qed

lemma load_csv_clean:
  assumes "blockchain_load_csv al file (Some c) (Some path) = (PROJECT_OK, r)"
  obtains c' where "r = Some c'" "list_all block_clean (blocks c')" "chain_wf c'" "blocks c' \<noteq> []"
proof -
  obtain f buf rest eof loaded where "file = Some f"
    "load_lines al (r_error f) rest chain_zero = Inr loaded" "r = Some loaded" "blocks loaded \<noteq> []"
    using assms load_lines_not_OK
    by (auto simp: blockchain_load_csv_def split: option.splits prod.splits if_splits sum.splits)
  then show thesis using that load_lines_clean [of al "r_error f" rest chain_zero loaded] by simp
qed

lemma load_csv_error:
  "blockchain_load_csv al file (Some c) (Some path) = (rc, r) \<Longrightarrow> rc \<noteq> PROJECT_OK \<Longrightarrow> r = Some c"
  by (auto simp: blockchain_load_csv_def split: option.splits prod.splits if_splits sum.splits)

section \<open>Properties\<close>

text \<open>
  C26. Appending keeps the invariant of the chain (the counter within the capacity, every block
  well-formed) and is all or nothing: on success exactly the given block is added at the end, on an
  error the blocks are as before; with memory available every well-formed block is added.
\<close>

theorem append_all_or_nothing:
  assumes "chain_wf c" "blockchain_append al (Some c) (Some b) = (rc, r)"
  shows "\<exists>c'. r = Some c' \<and> chain_wf c'
    \<and> blocks c' = (if rc = PROJECT_OK then blocks c @ [b] else blocks c)
    \<and> (alloc_total al \<and> block_wf b \<longrightarrow> rc = PROJECT_OK)"
  using assms(2)
proof (cases rule: blockchain_append_cases)
  case (ok c')
  with assms(1) show ?thesis by simp
next
  case (error c')
  with assms blockchain_append_total [of al b c] show ?thesis by auto
qed

theorem append_all_or_nothing_witness:
  "\<exists>c'. snd (blockchain_append no_oom (Some chain_zero) (Some (sample_block [''x'']))) = Some c'
      \<and> blocks c' = [sample_block [''x'']]"
proof -
  obtain rc r where a: "blockchain_append no_oom (Some chain_zero) (Some (sample_block [''x''])) = (rc, r)" by fastforce
  have "block_wf (sample_block [''x''])"
    by (simp add: sample_block_def block_wf_def tx_ptr_ok_def tx_storable_def)
  then show ?thesis using append_all_or_nothing [OF chain_wf_zero a] a by auto
qed

text \<open>
  C24. Saving and loading: the file written for a non-empty chain of printable blocks whose
  transactions are told apart, loaded into any chain object, gives the same blocks in the same order
  in a well-formed chain.
\<close>

theorem save_load_round_trip:
  assumes "alloc_total al" "chain_wf c" "blocks_storable (blocks c)"
  shows "\<exists>file c'. blockchain_save_csv al w_good (Some c) (Some path) = (PROJECT_OK, file)
    \<and> blockchain_load_csv al (Some (r_good file)) (Some old) (Some path') = (PROJECT_OK, Some c')
    \<and> blocks c' = blocks c \<and> chain_wf c'"
proof -
  have "list_all block_printable (blocks c)" using assms(3) by (auto simp: blocks_storable_def list_all_iff)
  then have "blockchain_save_csv al w_good (Some c) (Some path) = (PROJECT_OK, file_text (blocks c))"
    using save_csv_good [OF assms(1) _ assms(2)] by blast
  then show ?thesis using load_saved_file [OF assms(1,3), of old path'] by metis
qed

theorem save_load_round_trip_witness:
  "\<exists>file c'. blockchain_save_csv no_oom w_good (Some \<lparr>blocks = [sample_block [''x'']], capacity = 4\<rparr>) (Some ''f'') = (PROJECT_OK, file)
    \<and> blockchain_load_csv no_oom (Some (r_good file)) (Some chain_zero) (Some ''g'') = (PROJECT_OK, Some c')
    \<and> blocks c' = [sample_block [''x'']]"
proof -
  have "chain_wf \<lparr>blocks = [sample_block [''x'']], capacity = 4\<rparr>" "blocks_storable [sample_block [''x'']]"
    by (simp_all add: chain_wf_def sample_block_def block_wf_def tx_ptr_ok_def tx_storable_def blocks_storable_def
        block_printable_def tx_printable_def block_cstrings_def)
  then show ?thesis
    using save_load_round_trip [of no_oom "\<lparr>blocks = [sample_block [''x'']], capacity = 4\<rparr>" "''f''" chain_zero "''g''"]
    by auto
qed

text \<open>
  C25. Loading is all or nothing for any file, allocator and failing read: on an error the chain of
  the caller is untouched; on success the chain is non-empty and well-formed and every block of it
  is one that \<open>block_from_csv\<close> can return (hash fields, sizes, separable C strings).
\<close>

theorem load_all_or_nothing:
  assumes "blockchain_load_csv al fl (Some c) (Some path) = (rc, r)"
  shows "(rc \<noteq> PROJECT_OK \<longrightarrow> r = Some c)
    \<and> (rc = PROJECT_OK \<longrightarrow> (\<exists>c'. r = Some c' \<and> blocks c' \<noteq> [] \<and> chain_wf c' \<and> list_all block_clean (blocks c')))"
  using assms load_csv_error [of al fl c path rc r] load_csv_clean [of al fl c path r] by metis

theorem load_all_or_nothing_witness:
  "blockchain_load_csv no_oom (Some (r_good ''no header'')) (Some \<lparr>blocks = [sample_block [''x'']], capacity = 4\<rparr>)
     (Some ''f'') = (ERR_FILE_FORMAT, Some \<lparr>blocks = [sample_block [''x'']], capacity = 4\<rparr>)"
proof -
  let ?c = "\<lparr>blocks = [sample_block [''x'']], capacity = 4\<rparr>"
  obtain rc r where l: "blockchain_load_csv no_oom (Some (r_good ''no header'')) (Some ?c) (Some ''f'') = (rc, r)"
    by fastforce
  have "fgets 8191 ''no header'' = (''no header'', [], True)"
    by (simp add: numeral_eq_Suc)
  then have "rc = ERR_FILE_FORMAT"
    using l by (simp add: blockchain_load_csv_def r_good_def read_line_def chomp_def cstr_def strcspn_def Let_def)
  with load_all_or_nothing [OF l] l show ?thesis by simp
qed

end
