(* ===== verification/Regex.thy ===== *)
theory Regex
  imports Errors
begin

text \<open>
  The regular expressions that \<open>validate_transaction\<close> hands to \<open>regcomp\<close> and \<open>regexec\<close>: extended
  POSIX syntax over characters, sequences, repetition. The pattern is anchored on both sides and
  compiled without \<open>REG_NEWLINE\<close>, so \<open>regexec\<close> succeeds exactly when the whole string is in the
  language of the expression. The matcher takes derivatives and is proved against the language.
\<close>

section \<open>Expressions and matcher\<close>

datatype regex =
    RNone
  | REps
  | RChr "char \<Rightarrow> bool"
  | RSeq regex regex
  | RAlt regex regex
  | RStar regex

definition RPlus :: "regex \<Rightarrow> regex" where
  "RPlus r = RSeq r (RStar r)"

fun RLit :: "string \<Rightarrow> regex" where
  "RLit [] = REps"
| "RLit (c # cs) = RSeq (RChr (\<lambda>x. x = c)) (RLit cs)"

primrec nullable :: "regex \<Rightarrow> bool" where
  "nullable RNone = False"
| "nullable REps = True"
| "nullable (RChr P) = False"
| "nullable (RSeq r s) = (nullable r \<and> nullable s)"
| "nullable (RAlt r s) = (nullable r \<or> nullable s)"
| "nullable (RStar r) = True"

primrec deriv :: "char \<Rightarrow> regex \<Rightarrow> regex" where
  "deriv c RNone = RNone"
| "deriv c REps = RNone"
| "deriv c (RChr P) = (if P c then REps else RNone)"
| "deriv c (RSeq r s) = (if nullable r then RAlt (RSeq (deriv c r) s) (deriv c s) else RSeq (deriv c r) s)"
| "deriv c (RAlt r s) = RAlt (deriv c r) (deriv c s)"
| "deriv c (RStar r) = RSeq (deriv c r) (RStar r)"

definition regexec_matches :: "regex \<Rightarrow> string \<Rightarrow> bool" where
  "regexec_matches r s = nullable (foldl (\<lambda>r c. deriv c r) r s)"

section \<open>Languages\<close>

inductive_set re_star :: "string set \<Rightarrow> string set" for A where
  star_nil: "[] \<in> re_star A"
| star_step: "x \<in> A \<Longrightarrow> y \<in> re_star A \<Longrightarrow> x @ y \<in> re_star A"

primrec lang :: "regex \<Rightarrow> string set" where
  "lang RNone = {}"
| "lang REps = {[]}"
| "lang (RChr P) = {[c] | c. P c}"
| "lang (RSeq r s) = {x @ y | x y. x \<in> lang r \<and> y \<in> lang s}"
| "lang (RAlt r s) = lang r \<union> lang s"
| "lang (RStar r) = re_star (lang r)"

lemma nullable_lang: "nullable r \<longleftrightarrow> [] \<in> lang r"
  by (induction r) (auto intro: re_star.star_nil)

lemma re_star_Cons:
  "c # s \<in> re_star A \<longleftrightarrow> (\<exists>x y. s = x @ y \<and> c # x \<in> A \<and> y \<in> re_star A)"
proof
  show "c # s \<in> re_star A \<Longrightarrow> \<exists>x y. s = x @ y \<and> c # x \<in> A \<and> y \<in> re_star A"
  proof (induction "c # s" rule: re_star.induct)
    case (star_step x y)
    then show ?case by (cases x) auto
  qed
next
  assume "\<exists>x y. s = x @ y \<and> c # x \<in> A \<and> y \<in> re_star A"
  then obtain x y where "s = x @ y" "c # x \<in> A" "y \<in> re_star A" by blast
  then show "c # s \<in> re_star A" using re_star.star_step [of "c # x" A y] by simp
qed

lemma deriv_lang: "s \<in> lang (deriv c r) \<longleftrightarrow> c # s \<in> lang r"
proof (induction r arbitrary: s)
  case (RSeq r1 r2)
  have "c # s \<in> lang (RSeq r1 r2) \<longleftrightarrow>
      (\<exists>x y. s = x @ y \<and> c # x \<in> lang r1 \<and> y \<in> lang r2) \<or> ([] \<in> lang r1 \<and> c # s \<in> lang r2)"
    by (auto simp: Cons_eq_append_conv)
  then show ?case using RSeq by (auto simp: nullable_lang)
next
  case (RStar r)
  then show ?case by (auto simp: re_star_Cons)
qed auto

lemma regexec_matches_lang: "regexec_matches r s \<longleftrightarrow> s \<in> lang r"
  unfolding regexec_matches_def
  by (induction s arbitrary: r) (simp_all add: nullable_lang deriv_lang)

lemma re_star_chars: "re_star {[c] | c. P c} = {s. list_all P s}"
proof (intro set_eqI iffI)
  fix s
  show "s \<in> re_star {[c] | c. P c} \<Longrightarrow> s \<in> {s. list_all P s}"
    by (induction rule: re_star.induct) auto
  show "s \<in> {s. list_all P s} \<Longrightarrow> s \<in> re_star {[c] | c. P c}"
  proof (induction s)
    case (Cons c s)
    then show ?case using re_star.star_step [of "[c]" "{[c] | c. P c}" s] by auto
  qed (simp add: re_star.star_nil)
qed

lemma lang_star_chr [simp]: "lang (RStar (RChr P)) = {s. list_all P s}"
  by (simp add: re_star_chars)

lemma in_lang_seq: "s \<in> lang (RSeq a b) \<longleftrightarrow> (\<exists>x y. s = x @ y \<and> x \<in> lang a \<and> y \<in> lang b)"
  by simp

lemma lang_seqI: "x \<in> lang a \<Longrightarrow> y \<in> lang b \<Longrightarrow> x @ y \<in> lang (RSeq a b)"
  by auto

lemma lang_plus_chr [simp]: "lang (RPlus (RChr P)) = {s. s \<noteq> [] \<and> list_all P s}"
proof (intro set_eqI)
  fix s
  have "s \<in> lang (RPlus (RChr P)) \<longleftrightarrow> (\<exists>x y. s = x @ y \<and> (\<exists>c. x = [c] \<and> P c) \<and> list_all P y)"
    by (simp add: RPlus_def re_star_chars)
  also have "\<dots> \<longleftrightarrow> (\<exists>c y. s = [c] @ y \<and> P c \<and> list_all P y)"
    by blast
  also have "\<dots> \<longleftrightarrow> s \<in> {s. s \<noteq> [] \<and> list_all P s}"
    by (cases s) auto
  finally show "s \<in> lang (RPlus (RChr P)) \<longleftrightarrow> s \<in> {s. s \<noteq> [] \<and> list_all P s}" .
qed

lemma lang_lit [simp]: "lang (RLit s) = {s}"
  by (induction s) auto

end
