(* ===== verification/Validation.thy ===== *)
theory Validation
  imports Blockchain Regex
begin

text \<open>
  Validation of transactions, blocks, links and whole chains (\<^verbatim>\<open>include/validation.h\<close>,
  \<^verbatim>\<open>common/validation.c\<close>), and the declarative notions it decides: \<open>tx_wellformed\<close> for one
  transaction, \<open>block_ok\<close> for one block, \<open>link_ok\<close> for two consecutive blocks, \<open>chain_valid\<close> for a
  chain.
\<close>

section \<open>Operations\<close>

definition c_is_1_9 :: "char \<Rightarrow> bool" where
  "c_is_1_9 c \<longleftrightarrow> 49 \<le> code c \<and> code c \<le> 57"

text \<open>The pattern \<^verbatim>\<open>^[[:alnum:]]+ pays [[:alnum:]]+ [1-9][0-9]* coins$\<close>.\<close>

definition transaction_pattern :: regex where
  "transaction_pattern =
     RSeq (RPlus (RChr c_isalnum)) (RSeq (RLit '' pays '') (RSeq (RPlus (RChr c_isalnum))
       (RSeq (RLit '' '') (RSeq (RChr c_is_1_9) (RSeq (RStar (RChr c_isdigit)) (RLit '' coins''))))))"

text \<open>
  Compiling a fixed valid pattern fails only for lack of memory; the request stands for the
  compiled automaton.
\<close>

abbreviation regcomp_bytes :: nat where
  "regcomp_bytes \<equiv> 232"

definition validate_transaction :: "alloc \<Rightarrow> string ptr \<Rightarrow> project_error_t" where
  "validate_transaction al transaction =
     (case transaction of
        None \<Rightarrow> ERR_INVALID_ARGUMENT
      | Some t \<Rightarrow>
          if length t = 0 \<or> MAX_TRANSACTION_LENGTH \<le> length t then ERR_INVALID_TRANSACTION
          else if \<not> al regcomp_bytes then ERR_INVALID_TRANSACTION
          else if \<not> regexec_matches transaction_pattern t then ERR_INVALID_TRANSACTION
          else PROJECT_OK)"

definition validate_hash_string :: "string ptr \<Rightarrow> project_error_t" where
  "validate_hash_string hash =
     (case hash of
        None \<Rightarrow> ERR_INVALID_ARGUMENT
      | Some h \<Rightarrow>
          if length h \<noteq> SHA256_HEX_LENGTH then ERR_INVALID_BLOCK
          else if \<not> list_all (\<lambda>c. c_isdigit c \<or> (97 \<le> code c \<and> code c \<le> 102)) h then ERR_INVALID_BLOCK
          else PROJECT_OK)"

text \<open>The loop over the payload of a genesis block.\<close>

fun validate_genesis_payload :: "string ptr list \<Rightarrow> project_error_t" where
  "validate_genesis_payload [] = PROJECT_OK"
| "validate_genesis_payload (t # ts) =
     (case t of
        None \<Rightarrow> ERR_INVALID_BLOCK
      | Some tx \<Rightarrow>
          if length tx = 0 \<or> MAX_TRANSACTION_LENGTH \<le> length tx then ERR_INVALID_BLOCK
          else validate_genesis_payload ts)"

text \<open>The loop over the transactions of a normal block.\<close>

fun validate_transactions :: "alloc \<Rightarrow> string ptr list \<Rightarrow> project_error_t" where
  "validate_transactions al [] = PROJECT_OK"
| "validate_transactions al (t # ts) =
     (if validate_transaction al t \<noteq> PROJECT_OK then ERR_INVALID_BLOCK else validate_transactions al ts)"

definition validate_block_structure :: "alloc \<Rightarrow> block_t ptr \<Rightarrow> project_error_t" where
  "validate_block_structure al block =
     (case block of
        None \<Rightarrow> ERR_INVALID_ARGUMENT
      | Some b \<Rightarrow>
          if validate_hash_string (Some (previous_hash b)) \<noteq> PROJECT_OK then ERR_INVALID_BLOCK
          else if validate_hash_string (Some (merkle_root b)) \<noteq> PROJECT_OK then ERR_INVALID_BLOCK
          else if transactions b = [] \<or> MAX_TRANSACTIONS_PER_BLOCK < transaction_count b
               then ERR_INVALID_BLOCK
          else if index b = 0 then validate_genesis_payload (transactions b)
          else validate_transactions al (transactions b))"

definition validate_block_merkle_root :: "alloc \<Rightarrow> block_t ptr \<Rightarrow> project_error_t" where
  "validate_block_merkle_root al block =
     (case block of
        None \<Rightarrow> ERR_INVALID_ARGUMENT
      | Some b \<Rightarrow>
          if validate_block_structure al block \<noteq> PROJECT_OK then validate_block_structure al block
          else (case calculate_merkle_root al (Some (transactions b)) of
                  Inl e \<Rightarrow> e
                | Inr calculated_root \<Rightarrow>
                    if calculated_root \<noteq> merkle_root b then ERR_INVALID_BLOCK else PROJECT_OK))"

definition validate_block_link :: "alloc \<Rightarrow> block_t ptr \<Rightarrow> block_t ptr \<Rightarrow> project_error_t" where
  "validate_block_link al previous current =
     (case (previous, current) of
        (Some p, Some c) \<Rightarrow>
          if validate_block_merkle_root al previous \<noteq> PROJECT_OK then ERR_INVALID_BLOCK
          else if validate_block_merkle_root al current \<noteq> PROJECT_OK then ERR_INVALID_BLOCK
          else if index c \<noteq> index p + 1 then ERR_INVALID_BLOCKCHAIN
          else if timestamp c < timestamp p then ERR_INVALID_BLOCKCHAIN
          else (case calculate_block_hash al previous of
                  Inl e \<Rightarrow> e
                | Inr previous_block_hash \<Rightarrow>
                    if previous_hash c \<noteq> previous_block_hash then ERR_INVALID_BLOCKCHAIN
                    else PROJECT_OK)
      | _ \<Rightarrow> ERR_INVALID_ARGUMENT)"

fun validate_all_blocks :: "alloc \<Rightarrow> block_t list \<Rightarrow> project_error_t" where
  "validate_all_blocks al [] = PROJECT_OK"
| "validate_all_blocks al (b # bs) =
     (if validate_block_merkle_root al (Some b) \<noteq> PROJECT_OK then ERR_INVALID_BLOCKCHAIN
      else validate_all_blocks al bs)"

fun validate_all_links :: "alloc \<Rightarrow> block_t list \<Rightarrow> project_error_t" where
  "validate_all_links al (p # c # bs) =
     (if validate_block_link al (Some p) (Some c) \<noteq> PROJECT_OK then ERR_INVALID_BLOCKCHAIN
      else validate_all_links al (c # bs))"
| "validate_all_links al _ = PROJECT_OK"

definition validate_blockchain :: "alloc \<Rightarrow> blockchain_t ptr \<Rightarrow> project_error_t" where
  "validate_blockchain al chain =
     (case chain of
        None \<Rightarrow> ERR_INVALID_ARGUMENT
      | Some c \<Rightarrow>
          if capacity c = 0 \<or> chain_count c = 0 then ERR_INVALID_BLOCKCHAIN
          else if index (blocks c ! 0) \<noteq> 0 then ERR_INVALID_BLOCKCHAIN
          else if validate_all_blocks al (blocks c) \<noteq> PROJECT_OK then validate_all_blocks al (blocks c)
          else validate_all_links al (blocks c))"

section \<open>What the checks decide\<close>

definition tx_wellformed :: "string \<Rightarrow> bool" where
  "tx_wellformed t \<longleftrightarrow>
     (\<exists>sender receiver amount.
        t = sender @ '' pays '' @ receiver @ '' '' @ amount @ '' coins''
        \<and> sender \<noteq> [] \<and> list_all c_isalnum sender \<and> receiver \<noteq> [] \<and> list_all c_isalnum receiver
        \<and> amount \<noteq> [] \<and> c_is_1_9 (hd amount) \<and> list_all c_isdigit amount)"

definition payload_ok :: "block_t \<Rightarrow> bool" where
  "payload_ok b \<longleftrightarrow> (\<forall>t\<in>set (txs b). tx_storable t \<and> (index b \<noteq> 0 \<longrightarrow> tx_wellformed t))"

definition structure_ok :: "block_t \<Rightarrow> bool" where
  "structure_ok b \<longleftrightarrow>
     hash_ok (previous_hash b) \<and> hash_ok (merkle_root b) \<and> transactions b \<noteq> []
     \<and> transaction_count b \<le> MAX_TRANSACTIONS_PER_BLOCK \<and> None \<notin> set (transactions b) \<and> payload_ok b"

definition block_ok :: "block_t \<Rightarrow> bool" where
  "block_ok b \<longleftrightarrow> structure_ok b \<and> merkle_root b = merkle_root_of (txs b)"

definition link_ok :: "block_t \<Rightarrow> block_t \<Rightarrow> bool" where
  "link_ok p c \<longleftrightarrow> index c = index p + 1 \<and> timestamp p \<le> timestamp c \<and> previous_hash c = block_hash p"

definition chain_valid :: "block_t list \<Rightarrow> bool" where
  "chain_valid bs \<longleftrightarrow>
     bs \<noteq> [] \<and> index (hd bs) = 0 \<and> list_all block_ok bs \<and> successively link_ok bs"

lemma c_is_1_9_digit: "c_is_1_9 c \<Longrightarrow> c_isdigit c"
  by (simp add: c_is_1_9_def c_isdigit_def)

lemma pattern_wellformed: "t \<in> lang transaction_pattern \<longleftrightarrow> tx_wellformed t"
proof
  assume "t \<in> lang transaction_pattern"
  then obtain s r d ds where "t = s @ '' pays '' @ r @ '' '' @ [d] @ ds @ '' coins''"
    "s \<noteq> []" "list_all c_isalnum s" "r \<noteq> []" "list_all c_isalnum r" "c_is_1_9 d" "list_all c_isdigit ds"
    unfolding transaction_pattern_def in_lang_seq lang_star_chr lang_plus_chr lang_lit by auto
  then show "tx_wellformed t"
    unfolding tx_wellformed_def
    by (intro exI [of _ s] exI [of _ r] exI [of _ "d # ds"]) (auto simp: c_is_1_9_digit)
next
  assume "tx_wellformed t"
  then obtain s r a where t: "t = s @ '' pays '' @ r @ '' '' @ a @ '' coins''"
    and p: "s \<noteq> []" "list_all c_isalnum s" "r \<noteq> []" "list_all c_isalnum r"
    and a: "a \<noteq> []" "c_is_1_9 (hd a)" "list_all c_isdigit a"
    unfolding tx_wellformed_def by blast
  obtain d ds where "a = d # ds" using a(1) by (cases a) auto
  with a have "a = [d] @ ds" "c_is_1_9 d" "list_all c_isdigit ds" by auto
  with t have t: "t = s @ '' pays '' @ r @ '' '' @ [d] @ ds @ '' coins''" by simp
  show "t \<in> lang transaction_pattern"
    unfolding transaction_pattern_def t using p \<open>c_is_1_9 d\<close> \<open>list_all c_isdigit ds\<close>
    by (intro lang_seqI) (simp_all add: re_star_chars)
qed

lemma validate_transaction_OK:
  "validate_transaction al (Some t) = PROJECT_OK \<Longrightarrow> tx_storable t \<and> tx_wellformed t"
  by (auto simp: validate_transaction_def tx_storable_def regexec_matches_lang pattern_wellformed
      split: if_splits)

lemma validate_transaction_total:
  "al regcomp_bytes \<Longrightarrow> tx_storable t \<Longrightarrow> tx_wellformed t \<Longrightarrow> validate_transaction al (Some t) = PROJECT_OK"
  by (auto simp: validate_transaction_def tx_storable_def regexec_matches_lang pattern_wellformed)

lemma validate_hash_string_OK [simp]:
  "validate_hash_string (Some h) = PROJECT_OK \<longleftrightarrow> hash_ok h"
  by (simp add: validate_hash_string_def hash_ok_def c_islower_hex_def [abs_def])

lemma validate_genesis_payload_OK:
  "validate_genesis_payload ps = PROJECT_OK \<longleftrightarrow> (\<forall>p\<in>set ps. p \<noteq> None \<and> tx_storable (the p))"
  by (induction ps) (auto simp: tx_storable_def split: option.splits)

lemma validate_transactions_OK:
  "validate_transactions al ps = PROJECT_OK \<longleftrightarrow> (\<forall>p\<in>set ps. validate_transaction al p = PROJECT_OK)"
  by (induction ps) auto

lemma validate_transaction_None [simp]: "validate_transaction al None = ERR_INVALID_ARGUMENT"
  by (simp add: validate_transaction_def)

lemma validate_transaction_ptr_OK:
  "validate_transaction al p = PROJECT_OK \<Longrightarrow> p \<noteq> None \<and> tx_storable (the p) \<and> tx_wellformed (the p)"
  using validate_transaction_OK by (cases p) auto

lemma validate_payload_OK:
  "(if index b = 0 then validate_genesis_payload (transactions b)
    else validate_transactions al (transactions b)) = PROJECT_OK \<Longrightarrow>
   None \<notin> set (transactions b) \<and> payload_ok b"
  using validate_transaction_ptr_OK [of al]
  by (fastforce simp: validate_genesis_payload_OK validate_transactions_OK payload_ok_def split: if_splits)

lemma validate_payload_total:
  assumes "al regcomp_bytes" "None \<notin> set (transactions b)" "payload_ok b"
  shows "(if index b = 0 then validate_genesis_payload (transactions b)
          else validate_transactions al (transactions b)) = PROJECT_OK"
proof -
  have "p \<noteq> None \<and> tx_storable (the p) \<and> (index b \<noteq> 0 \<longrightarrow> validate_transaction al p = PROJECT_OK)"
    if "p \<in> set (transactions b)" for p
  proof (cases p)
    case None
    with assms(2) that show ?thesis by simp
  next
    case (Some t)
    have "tx_storable (the p) \<and> (index b \<noteq> 0 \<longrightarrow> tx_wellformed (the p))"
      using assms(3) that by (simp add: payload_ok_def)
    with assms(1) Some show ?thesis by (simp add: validate_transaction_total)
  qed
  then show ?thesis by (simp add: validate_genesis_payload_OK validate_transactions_OK)
qed

lemma validate_block_structure_OK:
  "validate_block_structure al (Some b) = PROJECT_OK \<Longrightarrow> structure_ok b"
  using validate_payload_OK [of b al]
  by (auto simp: validate_block_structure_def structure_ok_def split: if_splits)

lemma validate_block_structure_total:
  "al regcomp_bytes \<Longrightarrow> structure_ok b \<Longrightarrow> validate_block_structure al (Some b) = PROJECT_OK"
  using validate_payload_total [of al b]
  by (simp add: validate_block_structure_def structure_ok_def)

lemma validate_block_merkle_root_OK:
  "validate_block_merkle_root al (Some b) = PROJECT_OK \<Longrightarrow> block_ok b"
proof -
  assume v: "validate_block_merkle_root al (Some b) = PROJECT_OK"
  then have s: "structure_ok b"
    by (auto simp: validate_block_merkle_root_def split: if_splits intro: validate_block_structure_OK)
  then have "calculate_merkle_root al (Some (transactions b)) \<in>
      {Inr (merkle_root_of (txs b)), Inl ERR_MEMORY_ALLOCATION}"
    using calculate_merkle_root_cases by (simp add: structure_ok_def)
  with v s show "block_ok b"
    by (auto simp: validate_block_merkle_root_def block_ok_def split: if_splits)
qed

lemma validate_block_merkle_root_total:
  assumes "alloc_total al" "block_ok b"
  shows "validate_block_merkle_root al (Some b) = PROJECT_OK"
proof -
  have "validate_block_structure al (Some b) = PROJECT_OK"
    using assms by (intro validate_block_structure_total) (auto simp: alloc_total_def block_ok_def)
  moreover have "calculate_merkle_root al (Some (transactions b)) = Inr (merkle_root b)"
    using assms calculate_merkle_root_cases [of "transactions b" al]
    by (simp add: block_ok_def structure_ok_def)
  ultimately show ?thesis by (simp add: validate_block_merkle_root_def)
qed

lemma block_ok_hashable: "block_ok b \<Longrightarrow> hashable b"
proof -
  assume "block_ok b"
  then have "structure_ok b" by (simp add: block_ok_def)
  then show ?thesis by (simp add: structure_ok_def hashable_def hash_ok_def)
qed

lemma validate_block_link_OK:
  assumes "validate_block_link al (Some p) (Some c) = PROJECT_OK"
  shows "block_ok p \<and> block_ok c \<and> link_ok p c"
proof -
  have ok: "block_ok p" "block_ok c"
    using assms by (auto simp: validate_block_link_def split: if_splits intro: validate_block_merkle_root_OK)
  with assms show ?thesis
    by (auto simp: validate_block_link_def link_ok_def not_less calculate_block_hash_eq block_ok_hashable
        split: if_splits)
qed

lemma validate_block_link_total:
  assumes "alloc_total al" "block_ok p" "block_ok c" "link_ok p c"
  shows "validate_block_link al (Some p) (Some c) = PROJECT_OK"
  using assms
  by (simp add: validate_block_link_def validate_block_merkle_root_total link_ok_def
      calculate_block_hash_eq block_ok_hashable alloc_total_def leD)

lemma validate_all_blocks_OK:
  "validate_all_blocks al bs = PROJECT_OK \<longleftrightarrow>
     (\<forall>b\<in>set bs. validate_block_merkle_root al (Some b) = PROJECT_OK)"
  by (induction bs) auto

lemma validate_all_links_OK:
  "validate_all_links al bs = PROJECT_OK \<longleftrightarrow>
     successively (\<lambda>p c. validate_block_link al (Some p) (Some c) = PROJECT_OK) bs"
  by (induction al bs rule: validate_all_links.induct) auto

lemma validate_blockchain_OK:
  assumes "validate_blockchain al (Some c) = PROJECT_OK"
  shows "chain_valid (blocks c)"
proof -
  let ?ok = "\<lambda>p c. validate_block_link al (Some p) (Some c) = PROJECT_OK"
  from assms have ne: "blocks c \<noteq> []" and z: "index (blocks c ! 0) = 0"
    and all: "\<forall>b\<in>set (blocks c). validate_block_merkle_root al (Some b) = PROJECT_OK"
    and links: "successively ?ok (blocks c)"
    by (auto simp: validate_blockchain_def validate_all_blocks_OK validate_all_links_OK split: if_splits)
  from links have "successively link_ok (blocks c)"
    by (rule successively_mono) (use validate_block_link_OK in blast)
  with ne z all show ?thesis
    by (auto simp: chain_valid_def list_all_iff hd_conv_nth intro: validate_block_merkle_root_OK)
qed

lemma validate_blockchain_total:
  assumes "alloc_total al" "chain_wf c" "chain_valid (blocks c)"
  shows "validate_blockchain al (Some c) = PROJECT_OK"
proof -
  have ok: "\<forall>b\<in>set (blocks c). block_ok b" and ne: "blocks c \<noteq> []"
    using assms(3) by (auto simp: chain_valid_def list_all_iff)
  have "capacity c \<noteq> 0" using assms(2) ne by (cases "blocks c") (auto simp: chain_wf_def)
  moreover have "successively (\<lambda>p c. validate_block_link al (Some p) (Some c) = PROJECT_OK) (blocks c)"
    using assms(3) ok validate_block_link_total [OF assms(1)]
    by (auto simp: chain_valid_def successively_conv_nth)
  ultimately show ?thesis
    using assms ne ok
    by (auto simp: validate_blockchain_def validate_all_blocks_OK validate_all_links_OK chain_valid_def
        hd_conv_nth validate_block_merkle_root_total)
qed

section \<open>Valid chains\<close>

lemma chain_valid_single: "chain_valid [b] \<longleftrightarrow> block_ok b \<and> index b = 0"
  by (auto simp: chain_valid_def)

lemma chain_valid_snoc:
  "bs \<noteq> [] \<Longrightarrow> chain_valid (bs @ [b]) \<longleftrightarrow> chain_valid bs \<and> block_ok b \<and> link_ok (last bs) b"
  by (auto simp: chain_valid_def successively_append_iff)

lemma chain_valid_take: "chain_valid bs \<Longrightarrow> 0 < n \<Longrightarrow> chain_valid (take n bs)"
  by (cases n)
    (auto simp: chain_valid_def list_all_iff successively_conv_nth hd_conv_nth dest: in_set_takeD)

text \<open>Positions and indices agree in a valid chain.\<close>

lemma chain_valid_index: "chain_valid bs \<Longrightarrow> i < length bs \<Longrightarrow> index (bs ! i) = of_nat i"
proof (induction i)
  case 0
  then show ?case by (cases bs) (auto simp: chain_valid_def)
next
  case (Suc i)
  then have "link_ok (bs ! i) (bs ! Suc i)" by (simp add: chain_valid_def successively_conv_nth)
  with Suc show ?case by (simp add: link_ok_def)
qed

lemma chain_valid_last_index: "chain_valid bs \<Longrightarrow> index (last bs) = of_nat (length bs - 1)"
  by (simp add: last_conv_nth chain_valid_index chain_valid_def)

lemma chain_valid_timestamp:
  "chain_valid bs \<Longrightarrow> i \<le> j \<Longrightarrow> j < length bs \<Longrightarrow> timestamp (bs ! i) \<le> timestamp (bs ! j)"
proof (induction j)
  case (Suc j)
  then have "link_ok (bs ! j) (bs ! Suc j)" by (simp add: chain_valid_def successively_conv_nth)
  then have "timestamp (bs ! j) \<le> timestamp (bs ! Suc j)" by (simp add: link_ok_def)
  with Suc show ?case by (cases "i = Suc j") (auto intro: order_trans)
qed simp

lemma get_by_index_valid:
  assumes "chain_valid (blocks c)" "chain_count c < 2 ^ 64" "i < chain_count c"
  shows "blockchain_get_by_index (Some c) (of_nat i) = Some i"
proof -
  have "index (blocks c ! j) \<noteq> of_nat i" if "j < i" for j
    using that assms chain_valid_index [OF assms(1), of j] word_of_nat_inj_u64 [of j i] by simp
  then show ?thesis
    using assms by (simp add: blockchain_get_by_index_def find_position_Some chain_valid_index)
qed

section \<open>Valid transactions can be printed and told apart\<close>

lemma letters_alnum [simp]:
  "c_isalnum (CHR ''p'')" "c_isalnum (CHR ''a'')" "c_isalnum (CHR ''y'')" "c_isalnum (CHR ''s'')"
  "c_isalnum (CHR ''c'')" "c_isalnum (CHR ''o'')" "c_isalnum (CHR ''i'')" "c_isalnum (CHR ''n'')"
  by (simp_all add: c_isalnum_def c_isalpha_def code_def)

lemma tx_wellformed_chars:
  assumes "tx_wellformed t" "c \<in> set t"
  shows "c_isalnum c \<or> c = CHR '' ''"
proof -
  obtain s r a where "t = s @ '' pays '' @ r @ '' '' @ a @ '' coins''"
    "list_all c_isalnum s" "list_all c_isalnum r" "list_all c_isdigit a"
    using assms(1) by (auto simp: tx_wellformed_def)
  moreover have "c_isdigit c \<Longrightarrow> c_isalnum c" by (simp add: c_isalnum_def)
  ultimately show ?thesis using assms(2) by (auto simp: list_all_iff)
qed

lemma tx_wellformed_not_in: "tx_wellformed t \<Longrightarrow> \<not> c_isalnum c \<Longrightarrow> c \<noteq> CHR '' '' \<Longrightarrow> c \<notin> set t"
  using tx_wellformed_chars by blast

lemma no_colon_strstr: "CHR '':'' \<notin> set t \<Longrightarrow> strstr t ''::'' = None \<and> strstr (t @ '':'') ''::'' = None"
proof (induction t)
  case (Cons x t)
  then show ?case by (cases t) auto
qed simp

lemma not_alnum [simp]:
  "\<not> c_isalnum (CHR 0x22)" "\<not> c_isalnum (CHR '':'')" "\<not> c_isalnum (CHR 0x0A)" "\<not> c_isalnum (CHR 0x0D)"
  "\<not> c_isalnum (CHR 0x00)"
  by (simp_all add: c_isalnum_def c_isalpha_def c_isdigit_def code_def)

lemma tx_wellformed_printable: "tx_storable t \<Longrightarrow> tx_wellformed t \<Longrightarrow> tx_printable t"
  using tx_wellformed_not_in [of t] no_colon_strstr [of t] by (simp add: tx_printable_def)

lemma tx_wellformed_cstring: "tx_wellformed t \<Longrightarrow> is_cstring t"
  using tx_wellformed_not_in [of t "CHR 0x00"] by (simp add: is_cstring_def)

lemma wellformed_separable: "\<forall>t\<in>set ts. tx_wellformed t \<Longrightarrow> separable ts"
  using tx_wellformed_not_in no_colon_strstr by (induction ts rule: separable.induct) auto

lemma block_ok_printable:
  assumes "block_ok b" "index b \<noteq> 0"
  shows "block_printable b \<and> separable (txs b) \<and> block_cstrings b"
proof -
  have "structure_ok b" using assms by (simp add: block_ok_def)
  moreover have t: "tx_storable t \<and> tx_wellformed t" if "t \<in> set (txs b)" for t
    using assms that by (simp only: block_ok_def structure_ok_def payload_ok_def) blast
  moreover have "separable (txs b)" using t by (intro wellformed_separable) blast
  moreover have "p \<noteq> None \<and> tx_printable (the p)" if "p \<in> set (transactions b)" for p
  proof
    have "None \<notin> set (transactions b)" using \<open>structure_ok b\<close> by (simp add: structure_ok_def)
    with that show "p \<noteq> None" by metis
    show "tx_printable (the p)" using that t tx_wellformed_printable by simp
  qed
  ultimately show ?thesis
    using tx_wellformed_cstring
    by (simp add: structure_ok_def block_printable_def block_cstrings_def list_all_iff)
qed

lemma structure_ok_wf: "structure_ok b \<Longrightarrow> block_wf b"
proof -
  assume "structure_ok b"
  then have "None \<notin> set (transactions b)" "\<forall>p\<in>set (transactions b). tx_storable (the p)"
    by (simp_all add: structure_ok_def payload_ok_def)
  then have "tx_ptr_ok p" if "p \<in> set (transactions b)" for p
    using that by (cases p) (auto simp: tx_ptr_ok_def)
  with \<open>structure_ok b\<close> show ?thesis by (simp add: block_wf_def list_all_iff structure_ok_def)
qed

lemma block_ok_parsed:
  assumes "block_ok b" "index b \<noteq> 0 \<or> separable (txs b)"
  shows "block_parsed b"
proof -
  have "structure_ok b" using assms by (simp add: block_ok_def)
  moreover have "separable (txs b)" using assms block_ok_printable by blast
  ultimately show ?thesis using structure_ok_wf by (simp add: block_parsed_def structure_ok_def)
qed

section \<open>Tamper evidence\<close>

text \<open>
  Two blocks with the same hash are the same block, unless the two hashed texts are a collision.
\<close>

lemma block_hash_binds:
  "block_parsed a \<Longrightarrow> block_parsed b \<Longrightarrow> block_hash a = block_hash b \<Longrightarrow>
   a = b \<or> clash sha256_text {hash_input a} {hash_input b}"
  using hash_input_inj by (auto simp: clash_def block_hash_def)

lemma chain_valid_all_parsed:
  assumes "chain_valid bs" "separable (txs (hd bs))" "length bs \<le> 2 ^ 64" "b \<in> set bs"
  shows "block_parsed b"
proof -
  obtain i where i: "i < length bs" "b = bs ! i" using assms(4) by (metis in_set_conv_nth)
  have ok: "block_ok b" using assms(1,4) by (simp add: chain_valid_def list_all_iff)
  have "index b \<noteq> 0 \<or> separable (txs b)"
  proof (cases "i = 0")
    case True
    with i assms(2) show ?thesis by (cases bs) auto
  next
    case False
    have "unat (of_nat i :: u64) = i" using i assms(3) by (intro unat_of_nat_u64) simp
    with False i chain_valid_index [OF assms(1)] show ?thesis by (metis unat_0)
  qed
  with ok show ?thesis by (rule block_ok_parsed)
qed

lemma same_tip_same_length:
  assumes "chain_valid xs" "chain_valid ys" "length xs \<le> 2 ^ 64" "length ys \<le> 2 ^ 64" "last xs = last ys"
  shows "length xs = length ys"
proof -
  have ne: "xs \<noteq> []" "ys \<noteq> []" using assms by (auto simp: chain_valid_def)
  have "(of_nat (length xs - 1) :: u64) = of_nat (length ys - 1)"
    using assms chain_valid_last_index by metis
  then have "length xs - 1 = length ys - 1"
    using assms(3,4) ne by (subst (asm) word_of_nat_inj_u64) (auto simp: Suc_le_eq length_greater_0_conv [symmetric] simp del: length_greater_0_conv)
  with ne show ?thesis by (metis Suc_pred' length_greater_0_conv)
qed

lemma tip_hash_binds:
  assumes "chain_valid xs" "chain_valid ys" "\<forall>b\<in>set xs \<union> set ys. block_parsed b"
    "length xs \<le> 2 ^ 64" "length ys \<le> 2 ^ 64" "block_hash (last xs) = block_hash (last ys)"
  shows "xs = ys \<or> clash sha256_text (hash_input ` set xs) (hash_input ` set ys)"
  using assms
proof (induction xs arbitrary: ys rule: rev_induct)
  case (snoc x xs)
  obtain zs y where ys: "ys = zs @ [y]" using snoc.prems(2) by (metis chain_valid_def rev_exhaust)
  have "x = y \<or> clash sha256_text {hash_input x} {hash_input y}"
    using snoc.prems(3,6) ys by (intro block_hash_binds) auto
  then show ?case
  proof
    assume "clash sha256_text {hash_input x} {hash_input y}"
    then have "clash sha256_text (hash_input ` set (xs @ [x])) (hash_input ` set ys)"
      by (rule clash_mono) (simp_all add: ys)
    then show ?thesis ..
  next
    assume xy: "x = y"
    then have len: "length xs = length zs"
      using same_tip_same_length [OF snoc.prems(1,2,4,5)] ys by simp
    show ?thesis
    proof (cases "xs = []")
      case True
      with len ys xy show ?thesis by simp
    next
      case False
      with len have "zs \<noteq> []" by auto
      with False snoc.prems(1,2) ys
      have "chain_valid xs" "chain_valid zs" "link_ok (last xs) x" "link_ok (last zs) y"
        by (auto simp: chain_valid_snoc)
      moreover from this xy have "block_hash (last xs) = block_hash (last zs)"
        by (simp add: link_ok_def)
      ultimately have "xs = zs \<or> clash sha256_text (hash_input ` set xs) (hash_input ` set zs)"
        using snoc.prems(3-5) ys by (intro snoc.IH) auto
      moreover have "clash sha256_text (hash_input ` set (xs @ [x])) (hash_input ` set ys)"
        if "clash sha256_text (hash_input ` set xs) (hash_input ` set zs)"
        using that by (rule clash_mono) (auto simp: ys)
      ultimately show ?thesis using xy ys by blast
    qed
  qed
qed (simp add: chain_valid_def)

section \<open>A small chain\<close>

text \<open>A genesis block and one block on it, with symbolic digests, for the examples of this development.\<close>

definition example_genesis :: block_t where
  "example_genesis =
     \<lparr>index = 0, timestamp = 100, previous_hash = replicate 64 (CHR ''0''),
      merkle_root = merkle_root_of [''genesis''], nonce = 0, transactions = [Some ''genesis'']\<rparr>"

definition example_tx :: string where
  "example_tx = ''Alice pays Bob 5 coins''"

definition example_block :: block_t where
  "example_block =
     \<lparr>index = 1, timestamp = 101, previous_hash = block_hash example_genesis,
      merkle_root = merkle_root_of [example_tx], nonce = 7, transactions = [Some example_tx]\<rparr>"

lemma example_tx_ok: "tx_wellformed example_tx" "tx_storable example_tx"
proof -
  have "example_tx = ''Alice'' @ '' pays '' @ ''Bob'' @ '' '' @ ''5'' @ '' coins''" by (simp add: example_tx_def)
  moreover have "list_all c_isalnum ''Alice''" "list_all c_isalnum ''Bob''" "c_is_1_9 (hd ''5'')" "list_all c_isdigit ''5''"
    by (simp_all add: c_isalnum_def c_isalpha_def c_isdigit_def c_is_1_9_def code_def)
  ultimately show "tx_wellformed example_tx" unfolding tx_wellformed_def by blast
qed (simp add: example_tx_def tx_storable_def)

lemma example_genesis_ok: "block_ok example_genesis" "index example_genesis = 0" "separable (txs example_genesis)"
  using merkle_root_of_ok [of "[''genesis'']"]
  by (simp_all add: example_genesis_def block_ok_def structure_ok_def payload_ok_def tx_storable_def)

lemma block_hash_ok [simp]: "hash_ok (block_hash b)"
  by (simp add: block_hash_def)

lemma example_block_ok: "block_ok example_block" "link_ok example_genesis example_block" "index example_block = 1"
  using merkle_root_of_ok [of "[example_tx]"] example_tx_ok
  by (simp_all add: example_block_def example_genesis_def link_ok_def block_ok_def structure_ok_def payload_ok_def)

lemma example_chain_valid:
  "chain_valid [example_genesis]" "chain_valid [example_genesis, example_block]"
  using example_genesis_ok example_block_ok by (simp_all add: chain_valid_def)

lemma example_printable:
  "block_printable example_genesis" "block_printable example_block" "separable (txs example_block)"
  "block_cstrings example_genesis" "block_cstrings example_block"
  using block_ok_printable [OF example_block_ok(1)] example_block_ok(3) merkle_root_of_ok [of "[''genesis'']"]
  by (simp_all add: example_genesis_def block_printable_def tx_printable_def tx_storable_def block_cstrings_def)

lemma example_clean: "block_clean example_genesis" "block_clean example_block"
  using example_printable example_genesis_ok example_block_ok block_ok_parsed [of example_genesis]
    block_ok_parsed [of example_block] by (simp_all add: block_clean_def)

lemma example_wf: "block_wf example_genesis" "block_wf example_block"
  using example_clean by (simp_all add: block_clean_def block_parsed_def)

section \<open>Properties\<close>

text \<open>
  C3. Tamper evidence: two valid chains, with the transactions of their first blocks told apart by
  the separator, whose last blocks have the same hash are equal, block for block, or the texts that
  were hashed for their blocks contain a collision of the digest: two different texts, one from each
  chain, with the same digest.
\<close>

theorem tip_hash_binds_chain:
  assumes "chain_valid xs" "chain_valid ys" "separable (txs (hd xs))" "separable (txs (hd ys))"
    "length xs \<le> 2 ^ 64" "length ys \<le> 2 ^ 64" "block_hash (last xs) = block_hash (last ys)"
  shows "xs = ys \<or> clash sha256_text (hash_input ` set xs) (hash_input ` set ys)"
proof -
  have "\<forall>b\<in>set xs \<union> set ys. block_parsed b"
    using chain_valid_all_parsed [OF assms(1,3,5)] chain_valid_all_parsed [OF assms(2,4,6)] by blast
  then show ?thesis using tip_hash_binds assms by blast
qed

theorem tip_hash_binds_chain_witness:
  "chain_valid [example_genesis, example_block] \<and> separable (txs example_genesis)
   \<and> ([example_genesis, example_block] = [example_genesis, example_block]
       \<or> clash sha256_text (hash_input ` set [example_genesis, example_block]) (hash_input ` set [example_genesis, example_block]))"
  using tip_hash_binds_chain [of "[example_genesis, example_block]" "[example_genesis, example_block]"]
    example_chain_valid example_genesis_ok by simp

text \<open>
  C8. \<open>validate_blockchain\<close> decides validity: it accepts only chains that start with index 0, whose
  blocks are all well-formed with the right Merkle root, and in which every block has the next
  index, a timestamp that does not go back and the hash of the block before it; and with memory
  available it accepts every such chain.
\<close>

theorem validate_blockchain_decides:
  assumes "chain_wf c"
  shows "(validate_blockchain al (Some c) = PROJECT_OK \<longrightarrow> chain_valid (blocks c))
    \<and> (alloc_total al \<longrightarrow> (validate_blockchain al (Some c) = PROJECT_OK \<longleftrightarrow> chain_valid (blocks c)))"
  using validate_blockchain_OK validate_blockchain_total [OF _ assms] by blast

theorem validate_blockchain_decides_witness:
  "validate_blockchain no_oom (Some \<lparr>blocks = [example_genesis, example_block], capacity = 4\<rparr>) = PROJECT_OK
   \<and> validate_blockchain no_oom (Some \<lparr>blocks = [example_block], capacity = 4\<rparr>) \<noteq> PROJECT_OK"
proof -
  have "chain_wf \<lparr>blocks = [example_genesis, example_block], capacity = 4\<rparr>" "chain_wf \<lparr>blocks = [example_block], capacity = 4\<rparr>"
    using example_wf by (simp_all add: chain_wf_def)
  from validate_blockchain_decides [OF this(1), of no_oom] validate_blockchain_decides [OF this(2), of no_oom]
  show ?thesis using example_chain_valid example_block_ok(3) by (simp add: chain_valid_single)
qed

text \<open>
  C21. \<open>validate_transaction\<close> decides the grammar of transactions: with memory for the compiled
  pattern it accepts exactly the texts of at most 255 characters of the form
  \<open>sender pays receiver amount coins\<close>, with alphanumeric names and an amount written with digits
  and without a leading zero; without that memory it accepts nothing.
\<close>

theorem validate_transaction_decides:
  "validate_transaction al (Some t) = PROJECT_OK \<longleftrightarrow>
     al regcomp_bytes \<and> length t < 256
     \<and> (\<exists>sender receiver amount.
          t = sender @ '' pays '' @ receiver @ '' '' @ amount @ '' coins''
          \<and> sender \<noteq> [] \<and> list_all c_isalnum sender \<and> receiver \<noteq> [] \<and> list_all c_isalnum receiver
          \<and> amount \<noteq> [] \<and> c_is_1_9 (hd amount) \<and> list_all c_isdigit amount)"
proof -
  have "validate_transaction al (Some t) = PROJECT_OK \<longleftrightarrow> al regcomp_bytes \<and> tx_storable t \<and> tx_wellformed t"
  proof
    assume v: "validate_transaction al (Some t) = PROJECT_OK"
    then have "al regcomp_bytes" by (simp add: validate_transaction_def split: if_splits)
    with validate_transaction_OK [OF v] show "al regcomp_bytes \<and> tx_storable t \<and> tx_wellformed t" by blast
  qed (use validate_transaction_total in blast)
  moreover have "tx_wellformed t \<Longrightarrow> t \<noteq> []" by (auto simp: tx_wellformed_def)
  ultimately show ?thesis unfolding tx_wellformed_def tx_storable_def by blast
qed

text \<open>
  Lookups in a valid chain: for every position, asking for the index of the block there returns
  that position, no other index is found, and timestamps never decrease along the chain.
\<close>

theorem lookup_in_valid_chain:
  assumes "chain_valid (blocks c)" "chain_count c < 2 ^ 64"
  shows "(i < chain_count c \<longrightarrow> blockchain_get_by_index (Some c) (of_nat i) = Some i)
    \<and> (chain_count c \<le> unat w \<longrightarrow> blockchain_get_by_index (Some c) w = None)
    \<and> (i \<le> j \<and> j < chain_count c \<longrightarrow> timestamp (blocks c ! i) \<le> timestamp (blocks c ! j))"
proof -
  have "index b \<noteq> w" if w: "chain_count c \<le> unat w" and b: "b \<in> set (blocks c)" for b
  proof -
    obtain k where "k < chain_count c" "b = blocks c ! k" using b by (metis in_set_conv_nth)
    then have "unat (index b) < chain_count c"
      using chain_valid_index [OF assms(1), of k] assms(2) by (simp add: unat_of_nat)
    with w show ?thesis by auto
  qed
  then have "chain_count c \<le> unat w \<longrightarrow> blockchain_get_by_index (Some c) w = None"
    by (simp add: blockchain_get_by_index_def find_position_None)
  then show ?thesis
    using get_by_index_valid [OF assms] chain_valid_timestamp [OF assms(1)] by blast
qed

theorem lookup_in_valid_chain_witness:
  "blockchain_get_by_index (Some \<lparr>blocks = [example_genesis, example_block], capacity = 4\<rparr>) 1 = Some 1
   \<and> blockchain_get_by_index (Some \<lparr>blocks = [example_genesis, example_block], capacity = 4\<rparr>) 2 = None"
  using lookup_in_valid_chain [of "\<lparr>blocks = [example_genesis, example_block], capacity = 4\<rparr>" 1 2 1]
    example_chain_valid by simp

end
