(* ===== verification/Ipc.thy ===== *)
theory Ipc
  imports Block
begin

text \<open>
  Messages and sockets (\<^verbatim>\<open>include/protocol.h\<close>, \<^verbatim>\<open>include/ipc.h\<close>, \<^verbatim>\<open>common/ipc.c\<close>). A message is
  a 16-byte header in host order (little endian) followed by the payload. The kernel is an argument:
  a script says how each \<open>read\<close>, \<open>write\<close> or \<open>accept\<close> answers (a part of the bytes moves, the call is
  interrupted, the call fails), and once the script is used up every call moves all it can. A script
  is finite, so interruptions come to an end.
\<close>

section \<open>Protocol\<close>

abbreviation PROTOCOL_MAGIC :: u32 where
  "PROTOCOL_MAGIC \<equiv> 0x424C4B43"

abbreviation PROTOCOL_VERSION :: u16 where
  "PROTOCOL_VERSION \<equiv> 1"

abbreviation MAX_PAYLOAD_SIZE :: nat where
  "MAX_PAYLOAD_SIZE \<equiv> 65536"

abbreviation MAX_SOCKET_PATH_LEN :: nat where
  "MAX_SOCKET_PATH_LEN \<equiv> 108"

abbreviation NODE_SOCK_FORMAT :: string where
  "NODE_SOCK_FORMAT \<equiv> ''node_%d.sock''"

abbreviation MINER_SOCK_FORMAT :: string where
  "MINER_SOCK_FORMAT \<equiv> ''miner_%d.sock''"

abbreviation CLIENT_SOCK_FORMAT :: string where
  "CLIENT_SOCK_FORMAT \<equiv> ''client_%d.sock''"

datatype message_type_t =
    MSG_TX_SUBMIT | MSG_TX_ACK | MSG_BLOCK_PROPOSAL | MSG_BLOCK_COMMIT | MSG_BLOCK_REJECT
  | MSG_SYNC_REQUEST | MSG_SYNC_RESPONSE | MSG_QUERY_CHAIN | MSG_QUERY_BLOCK | MSG_QUERY_HEIGHT
  | MSG_RESPONSE_OK | MSG_RESPONSE_ERR | MSG_SHUTDOWN

fun message_code :: "message_type_t \<Rightarrow> u16" where
  "message_code MSG_TX_SUBMIT = 1"
| "message_code MSG_TX_ACK = 2"
| "message_code MSG_BLOCK_PROPOSAL = 3"
| "message_code MSG_BLOCK_COMMIT = 4"
| "message_code MSG_BLOCK_REJECT = 5"
| "message_code MSG_SYNC_REQUEST = 6"
| "message_code MSG_SYNC_RESPONSE = 7"
| "message_code MSG_QUERY_CHAIN = 8"
| "message_code MSG_QUERY_BLOCK = 9"
| "message_code MSG_QUERY_HEIGHT = 10"
| "message_code MSG_RESPONSE_OK = 11"
| "message_code MSG_RESPONSE_ERR = 12"
| "message_code MSG_SHUTDOWN = 13"

record message_header_t =
  magic :: u32
  version :: u16
  msg_type :: u16
  sender_id :: u32
  payload_len :: u32

text \<open>The bytes of an unsigned integer in host order, and the integer they stand for.\<close>

fun le_bytes :: "nat \<Rightarrow> nat \<Rightarrow> char list" where
  "le_bytes 0 x = []"
| "le_bytes (Suc n) x = char_of (x mod 256) # le_bytes n (x div 256)"

fun le_val :: "char list \<Rightarrow> nat" where
  "le_val [] = 0"
| "le_val (b # bs) = of_char b + 256 * le_val bs"

text \<open>The memory of a header; the fields are aligned without padding.\<close>

definition header_bytes :: "message_header_t \<Rightarrow> char list" where
  "header_bytes h =
     le_bytes 4 (unat (magic h)) @ le_bytes 2 (unat (version h)) @ le_bytes 2 (unat (msg_type h))
     @ le_bytes 4 (unat (sender_id h)) @ le_bytes 4 (unat (payload_len h))"

abbreviation sizeof_header :: nat where
  "sizeof_header \<equiv> 16"

definition header_of_bytes :: "char list \<Rightarrow> message_header_t" where
  "header_of_bytes bs =
     \<lparr>magic = of_nat (le_val (take 4 bs)),
      version = of_nat (le_val (take 2 (drop 4 bs))),
      msg_type = of_nat (le_val (take 2 (drop 6 bs))),
      sender_id = of_nat (le_val (take 4 (drop 8 bs))),
      payload_len = of_nat (le_val (take 4 (drop 12 bs)))\<rparr>"

section \<open>Transfers\<close>

datatype sys_answer = SYS_moves nat | SYS_eintr | SYS_error

text \<open>
  The loop of \<open>read_full\<close>: the kernel's answers, the bytes the peer sends before it closes, and the
  number of bytes still wanted. A read moves at least one byte while there is one, and 0 at the end.
  The result is the buffer (\<open>None\<close> for the return value -1) with what is left of the two streams.
\<close>

function read_full ::
  "sys_answer list \<Rightarrow> char list \<Rightarrow> nat \<Rightarrow> char list option \<times> sys_answer list \<times> char list" where
  "read_full sc av len =
     (if len = 0 then (Some [], sc, av)
      else (case sc of
              SYS_eintr # sc' \<Rightarrow> read_full sc' av len
            | SYS_error # sc' \<Rightarrow> (None, sc', av)
            | SYS_moves k # sc' \<Rightarrow>
                if av = [] then (None, sc', av)
                else (let n = min (max 1 k) (min len (length av)) in
                      case read_full sc' (drop n av) (len - n) of
                        (r, sc'', av') \<Rightarrow> (map_option (\<lambda>rest. take n av @ rest) r, sc'', av'))
            | [] \<Rightarrow>
                if av = [] then (None, [], av)
                else (let n = min len (length av) in
                      case read_full [] (drop n av) (len - n) of
                        (r, sc'', av') \<Rightarrow> (map_option (\<lambda>rest. take n av @ rest) r, sc'', av'))))"
  by pat_completeness auto
termination
  by (relation "measure (\<lambda>(sc, av, len). length sc + len)") (auto simp: Let_def)

declare read_full.simps [simp del]

text \<open>
  The loop of \<open>write_full\<close>: the answers, the bytes still to be written, the bytes the peer can read.
  The result says whether the return value is 0.
\<close>

fun write_full :: "sys_answer list \<Rightarrow> char list \<Rightarrow> char list \<Rightarrow> bool \<times> sys_answer list \<times> char list" where
  "write_full sc [] out = (True, sc, out)"
| "write_full [] buf out = (True, [], out @ buf)"
| "write_full (SYS_eintr # sc) buf out = write_full sc buf out"
| "write_full (SYS_error # sc) buf out = (False, sc, out)"
| "write_full (SYS_moves k # sc) buf out = write_full sc (drop k buf) (out @ take k buf)"

section \<open>Sending and receiving\<close>

text \<open>The guards of \<open>ipc_send\<close> and the header it builds.\<close>

definition ipc_message ::
  "message_type_t \<Rightarrow> u32 \<Rightarrow> char list ptr \<Rightarrow> nat \<Rightarrow> project_error_t + (message_header_t \<times> char list)" where
  "ipc_message type sender payload len =
     (if MAX_PAYLOAD_SIZE < len \<or> (0 < len \<and> payload = None) then Inl ERR_INVALID_ARGUMENT
      else Inr (\<lparr>magic = PROTOCOL_MAGIC, version = PROTOCOL_VERSION, msg_type = message_code type,
                 sender_id = sender, payload_len = of_nat len\<rparr>,
                if 0 < len then take len (the payload) else []))"

text \<open>The result of sending is the status and the bytes that reached the peer.\<close>

definition ipc_send ::
  "sys_answer list \<Rightarrow> message_type_t \<Rightarrow> u32 \<Rightarrow> char list ptr \<Rightarrow> nat \<Rightarrow> project_error_t \<times> char list" where
  "ipc_send sc type sender payload len =
     (case ipc_message type sender payload len of
        Inl e \<Rightarrow> (e, [])
      | Inr (header, body) \<Rightarrow>
          (case write_full sc (header_bytes header) [] of
             (False, sc', out) \<Rightarrow> (ERR_IPC, out)
           | (True, sc', out) \<Rightarrow>
               if 0 < len
               then (case write_full sc' body out of
                       (False, sc'', out') \<Rightarrow> (ERR_IPC, out')
                     | (True, sc'', out') \<Rightarrow> (PROJECT_OK, out'))
               else (PROJECT_OK, out)))"

definition ipc_recv ::
  "alloc \<Rightarrow> sys_answer list \<Rightarrow> char list \<Rightarrow> project_error_t + (message_header_t \<times> char list ptr)" where
  "ipc_recv al sc av =
     (case read_full sc av sizeof_header of
        (None, sc', av') \<Rightarrow> Inl ERR_IPC
      | (Some hb, sc', av') \<Rightarrow>
          (let header = header_of_bytes hb; len = unat (payload_len header) in
           if magic header \<noteq> PROTOCOL_MAGIC \<or> version header \<noteq> PROTOCOL_VERSION then Inl ERR_SERIALIZATION
           else if MAX_PAYLOAD_SIZE < len then Inl ERR_INVALID_ARGUMENT
           else if 0 < len
                then (if \<not> al len then Inl ERR_MEMORY_ALLOCATION
                      else (case read_full sc' av' len of
                              (None, _, _) \<Rightarrow> Inl ERR_IPC
                            | (Some payload, _, _) \<Rightarrow> Inr (header, Some payload)))
                else Inr (header, None)))"

section \<open>Endpoints\<close>

text \<open>\<open>snprintf\<close> with a format that has at most one conversion \<^verbatim>\<open>%d\<close>.\<close>

definition printf_d :: "string \<Rightarrow> int \<Rightarrow> string" where
  "printf_d format num =
     (case strstr format ''%d'' of
        None \<Rightarrow> format
      | Some i \<Rightarrow> take i format @ fmt_d num @ drop (i + 2) format)"

definition ipc_build_socket_path ::
  "string ptr \<Rightarrow> string ptr \<Rightarrow> int \<Rightarrow> nat \<Rightarrow> project_error_t + string" where
  "ipc_build_socket_path runtime_dir name_format num out_size =
     (case (runtime_dir, name_format) of
        (Some dir, Some format) \<Rightarrow>
          if out_size = 0 then Inl ERR_INVALID_ARGUMENT
          else (let name = (if num < 0 then format else printf_d format num);
                    path = dir @ ''/'' @ name
                in if MAX_SOCKET_PATH_LEN \<le> length name then Inl ERR_INVALID_ARGUMENT
                   else if out_size \<le> length path \<or> MAX_SOCKET_PATH_LEN \<le> length path
                        then Inl ERR_INVALID_ARGUMENT
                   else Inr path)
      | _ \<Rightarrow> Inl ERR_INVALID_ARGUMENT)"

text \<open>
  What the kernel answers when an endpoint is set up: each field is the answer of one call. A
  descriptor is an integer, negative for a failure.
\<close>

datatype unlink_answer = UNLINKED | UNLINK_ENOENT | UNLINK_FAILED

datatype bind_answer = BOUND | BIND_EADDRINUSE | BIND_FAILED

record endpoint_env =
  env_unlink :: unlink_answer
  env_stat_ok :: bool
  env_socket :: int
  env_bind :: bind_answer
  env_listen :: bool
  env_connect :: bool

definition ipc_unlink_socket :: "endpoint_env \<Rightarrow> string ptr \<Rightarrow> project_error_t" where
  "ipc_unlink_socket e sock_path =
     (case sock_path of
        None \<Rightarrow> ERR_INVALID_ARGUMENT
      | Some p \<Rightarrow> if env_unlink e \<noteq> UNLINKED \<and> env_unlink e \<noteq> UNLINK_ENOENT then ERR_IPC else PROJECT_OK)"

definition ipc_server_create :: "endpoint_env \<Rightarrow> string ptr \<Rightarrow> project_error_t + int" where
  "ipc_server_create e sock_path =
     (case sock_path of
        None \<Rightarrow> Inl ERR_INVALID_ARGUMENT
      | Some p \<Rightarrow>
          if MAX_SOCKET_PATH_LEN \<le> length p then Inl ERR_INVALID_ARGUMENT
          else if env_stat_ok e then Inl ERR_ALREADY_EXISTS
          else if env_socket e < 0 then Inl ERR_IPC
          else if env_bind e = BIND_EADDRINUSE then Inl ERR_ALREADY_EXISTS
          else if env_bind e = BIND_FAILED then Inl ERR_IPC
          else if \<not> env_listen e then Inl ERR_IPC
          else Inr (env_socket e))"

text \<open>The answers of \<open>accept\<close>: interrupted, failed, or a descriptor.\<close>

datatype accept_answer = ACCEPT_eintr | ACCEPT_error | ACCEPT_fd nat

fun ipc_server_accept :: "accept_answer list \<Rightarrow> (project_error_t + nat) option" where
  "ipc_server_accept [] = None"
| "ipc_server_accept (ACCEPT_eintr # sc) = ipc_server_accept sc"
| "ipc_server_accept (ACCEPT_error # sc) = Some (Inl ERR_IPC)"
| "ipc_server_accept (ACCEPT_fd fd # sc) = Some (Inr fd)"

definition ipc_connect :: "endpoint_env \<Rightarrow> string ptr \<Rightarrow> project_error_t + int" where
  "ipc_connect e sock_path =
     (case sock_path of
        None \<Rightarrow> Inl ERR_INVALID_ARGUMENT
      | Some p \<Rightarrow>
          if MAX_SOCKET_PATH_LEN \<le> length p then Inl ERR_INVALID_ARGUMENT
          else if env_socket e < 0 then Inl ERR_IPC
          else if \<not> env_connect e then Inl ERR_IPC
          else Inr (env_socket e))"

text \<open>
  One exchange on a connection, as a client of the protocol sees it: how the kernel answers the
  writes and the reads, and which bytes the peer sends before it closes, as a function of the bytes
  that reached it.
\<close>

record connection =
  conn_writes :: "sys_answer list"
  conn_reads :: "sys_answer list"
  conn_peer :: "char list \<Rightarrow> char list"

section \<open>Facts on transfers\<close>

lemma le_val_le_bytes: "le_val (le_bytes n x) = x mod 256 ^ n"
proof (induction n arbitrary: x)
  case (Suc n)
  have "x mod (256 * 256 ^ n) = x mod 256 + 256 * (x div 256 mod 256 ^ n)"
    by (simp add: mod_mult2_eq add.commute)
  with Suc show ?case by simp
qed simp

lemma length_le_bytes [simp]: "length (le_bytes n x) = n"
  by (induction n arbitrary: x) auto

lemma length_header_bytes [simp]: "length (header_bytes h) = sizeof_header"
  by (simp add: header_bytes_def)

lemma header_round_trip [simp]: "header_of_bytes (header_bytes h) = h"
proof -
  have "unat (magic h) < 256 ^ 4" "unat (version h) < 256 ^ 2" "unat (msg_type h) < 256 ^ 2"
    "unat (sender_id h) < 256 ^ 4" "unat (payload_len h) < 256 ^ 4"
    using unsigned_less [of "magic h", where ?'a = nat] unsigned_less [of "version h", where ?'a = nat]
      unsigned_less [of "msg_type h", where ?'a = nat] unsigned_less [of "sender_id h", where ?'a = nat]
      unsigned_less [of "payload_len h", where ?'a = nat] by simp_all
  then show ?thesis
    by (cases h) (simp add: header_of_bytes_def header_bytes_def le_val_le_bytes)
qed

definition no_errors :: "sys_answer list \<Rightarrow> bool" where
  "no_errors sc \<longleftrightarrow> SYS_error \<notin> set sc"

lemma no_errors_Cons [simp]: "no_errors (a # sc) \<longleftrightarrow> a \<noteq> SYS_error \<and> no_errors sc"
  by (auto simp: no_errors_def)

lemma no_errors_Nil [simp]: "no_errors []"
  by (simp add: no_errors_def)

text \<open>However the bytes are split into pieces and interrupted, all of them move, in order.\<close>

lemma write_full_complete:
  "no_errors sc \<Longrightarrow> \<exists>sc'. write_full sc buf out = (True, sc', out @ buf) \<and> no_errors sc'"
  by (induction sc buf out rule: write_full.induct) auto

lemma read_full_complete:
  "no_errors sc \<Longrightarrow> len \<le> length av \<Longrightarrow>
   \<exists>sc'. read_full sc av len = (Some (take len av), sc', drop len av) \<and> no_errors sc'"
proof (induction sc av len rule: read_full.induct)
  case (1 sc av len)
  show ?case
  proof (cases "len = 0")
    case True
    with 1 show ?thesis by (simp add: read_full.simps)
  next
    case len: False
    with 1(5) have av: "av \<noteq> []" by auto
    have piece: "take n av @ take (len - n) (drop n av) = take len av"
      "drop (len - n) (drop n av) = drop len av" if "n \<le> len" for n
      using that take_add [of n "len - n" av] by (simp_all add: drop_drop)
    show ?thesis
    proof (cases sc)
      case Nil
      have n: "min len (length av) = len" using 1(5) by simp
      have "\<exists>sc'. read_full [] (drop len av) 0 = (Some [], sc', drop len av) \<and> no_errors sc'"
        by (subst read_full.simps) simp
      with len av Nil n show ?thesis
        by (subst read_full.simps) (auto simp: Let_def)
    next
      case (Cons a sc')
      show ?thesis
      proof (cases a)
        case (SYS_moves k)
        let ?n = "min (max 1 k) (min len (length av))"
        have "\<exists>sc''. read_full sc' (drop ?n av) (len - ?n) =
            (Some (take (len - ?n) (drop ?n av)), sc'', drop (len - ?n) (drop ?n av)) \<and> no_errors sc''"
          using 1(2) [OF len Cons SYS_moves av refl] 1(4,5) Cons by simp
        then obtain sc'' where "read_full sc' (drop ?n av) (len - ?n) =
            (Some (take (len - ?n) (drop ?n av)), sc'', drop (len - ?n) (drop ?n av))" "no_errors sc''"
          by blast
        with len av Cons SYS_moves piece [of ?n] show ?thesis
          by (subst read_full.simps) (simp add: Let_def)
      next
        case SYS_eintr
        with 1(3) [OF len Cons] 1(4,5) Cons len show ?thesis by (subst read_full.simps) simp
      next
        case SYS_error
        with 1(4) Cons show ?thesis by simp
      qed
    qed
  qed
qed

text \<open>Whatever the kernel answers, a complete buffer is the next bytes of the stream.\<close>

lemma read_full_cases:
  "read_full sc av len = (r, sc', av') \<Longrightarrow>
   r = None \<or> (len \<le> length av \<and> r = Some (take len av) \<and> av' = drop len av)"
proof (induction sc av len arbitrary: r sc' av' rule: read_full.induct)
  case (1 sc av len)
  have glue: "take n av @ take (len - n) (drop n av) = take len av" if "n \<le> len" for n
    using that take_add [of n "len - n" av] by simp
  show ?case
  proof (cases "len = 0 \<or> av = []")
    case True
    then show ?thesis
    proof
      assume "len = 0"
      with 1(4) show ?thesis by (simp add: read_full.simps)
    next
      assume "av = []"
      then show ?thesis
        using 1(3,4) by (subst (asm) (2) read_full.simps)
          (auto split: if_splits list.splits sys_answer.splits)
    qed
  next
    case False
    then have len: "len \<noteq> 0" and av: "av \<noteq> []" by auto
    show ?thesis
    proof (cases sc)
      case Nil
      let ?n = "min len (length av)"
      obtain r1 s1 a1 where r1: "read_full [] (drop ?n av) (len - ?n) = (r1, s1, a1)" by (metis prod_cases3)
      from 1(1) [OF len Nil av refl r1] 1(4) show ?thesis
        using len av Nil r1 glue [of ?n]
        by (subst (asm) read_full.simps) (auto simp: Let_def drop_drop)
    next
      case (Cons a rest)
      show ?thesis
      proof (cases a)
        case (SYS_moves k)
        let ?n = "min (max 1 k) (min len (length av))"
        obtain r1 s1 a1 where r1: "read_full rest (drop ?n av) (len - ?n) = (r1, s1, a1)" by (metis prod_cases3)
        from 1(2) [OF len Cons SYS_moves av refl r1] 1(4) show ?thesis
          using len av Cons SYS_moves r1 glue [of ?n]
          by (subst (asm) read_full.simps) (auto simp: Let_def drop_drop)
      next
        case SYS_eintr
        then show ?thesis
          using 1(3) [OF len Cons SYS_eintr] 1(4) len Cons by (subst (asm) (2) read_full.simps) simp
      next
        case SYS_error
        then show ?thesis using 1(4) len Cons by (subst (asm) read_full.simps) simp
      qed
    qed
  qed
qed

section \<open>Messages arrive as they were sent\<close>

text \<open>The bytes of a message on the wire.\<close>

definition wire_bytes :: "message_header_t \<times> char list \<Rightarrow> char list" where
  "wire_bytes m = header_bytes (fst m) @ snd m"

text \<open>What the guards of \<open>ipc_send\<close> let through.\<close>

definition message_ok :: "message_header_t \<times> char list \<Rightarrow> bool" where
  "message_ok m \<longleftrightarrow> magic (fst m) = PROTOCOL_MAGIC \<and> version (fst m) = PROTOCOL_VERSION
     \<and> length (snd m) \<le> MAX_PAYLOAD_SIZE \<and> unat (payload_len (fst m)) = length (snd m)"

definition payload_ptr :: "char list \<Rightarrow> char list ptr" where
  "payload_ptr body = (if body = [] then None else Some body)"

lemma ipc_message_ok:
  assumes "ipc_message type sender payload len = Inr m" "len \<le> length (the payload) \<or> len = 0"
  shows "message_ok m \<and> msg_type (fst m) = message_code type \<and> sender_id (fst m) = sender
         \<and> snd m = take len (the payload) \<and> length (snd m) = len"
  using assms
  by (auto simp: ipc_message_def message_ok_def unat_of_nat take_Suc split: if_splits)

lemma ipc_send_eq:
  assumes "ipc_message type sender payload len = Inr m" "len \<le> length (the payload) \<or> len = 0" "no_errors sc"
  shows "ipc_send sc type sender payload len = (PROJECT_OK, wire_bytes m)"
proof -
  obtain h body where m: "m = (h, body)" by fastforce
  obtain sc' where w1: "write_full sc (header_bytes h) [] = (True, sc', header_bytes h)" "no_errors sc'"
    using write_full_complete [OF assms(3), of "header_bytes h" "[]"] by auto
  obtain sc'' where "write_full sc' body (header_bytes h) = (True, sc'', header_bytes h @ body)"
    using write_full_complete [OF w1(2), of body "header_bytes h"] by auto
  moreover have "len = 0 \<Longrightarrow> body = []" using ipc_message_ok [OF assms(1,2)] m by simp
  ultimately show ?thesis
    using assms(1) m w1 by (simp add: ipc_send_def wire_bytes_def)
qed

lemma ipc_recv_eq:
  assumes "message_ok m" "no_errors sc" "al (length (snd m))"
  shows "ipc_recv al sc (wire_bytes m @ rest) = Inr (fst m, payload_ptr (snd m))"
proof -
  let ?av = "wire_bytes m @ rest"
  obtain sc' where r1: "read_full sc ?av sizeof_header = (Some (header_bytes (fst m)), sc', snd m @ rest)"
    "no_errors sc'"
    using read_full_complete [OF assms(2), of sizeof_header ?av] by (auto simp: wire_bytes_def)
  obtain sc'' where "read_full sc' (snd m @ rest) (length (snd m)) = (Some (snd m), sc'', rest)"
    using read_full_complete [OF r1(2), of "length (snd m)" "snd m @ rest"] by auto
  with r1 assms show ?thesis
    by (simp add: ipc_recv_def message_ok_def Let_def payload_ptr_def)
qed

text \<open>A peer that closes early is noticed: a part of a message never counts as a message.\<close>

lemma ipc_recv_truncated:
  assumes "message_ok m" "n < length (wire_bytes m)"
  shows "ipc_recv al sc (take n (wire_bytes m)) \<in> {Inl ERR_IPC, Inl ERR_MEMORY_ALLOCATION}"
proof -
  let ?av = "take n (wire_bytes m)"
  obtain r sc' av' where r: "read_full sc ?av sizeof_header = (r, sc', av')" by (metis prod_cases3)
  show ?thesis
  proof (cases r)
    case None
    with r show ?thesis by (simp add: ipc_recv_def)
  next
    case (Some hb)
    then have "sizeof_header \<le> n" "hb = header_bytes (fst m)" "av' = take (n - 16) (snd m)"
      using read_full_cases [OF r] assms(2) by (auto simp: wire_bytes_def)
    moreover obtain r2 s2 a2 where r2: "read_full sc' av' (length (snd m)) = (r2, s2, a2)"
      by (metis prod_cases3)
    moreover have "r2 = None"
      using read_full_cases [OF r2] calculation(3) assms(2) \<open>sizeof_header \<le> n\<close>
      by (auto simp: wire_bytes_def)
    moreover have "snd m \<noteq> []" using assms(2) \<open>sizeof_header \<le> n\<close> by (auto simp: wire_bytes_def)
    ultimately show ?thesis
      using assms(1) r Some by (simp add: ipc_recv_def message_ok_def Let_def)
  qed
qed

lemma ipc_recv_OK:
  "ipc_recv al sc av = Inr (h, p) \<Longrightarrow>
     magic h = PROTOCOL_MAGIC \<and> version h = PROTOCOL_VERSION \<and> unat (payload_len h) \<le> MAX_PAYLOAD_SIZE
     \<and> (p = None \<longleftrightarrow> payload_len h = 0)"
  by (auto simp: ipc_recv_def Let_def unat_eq_0 [symmetric] split: prod.splits option.splits if_splits)

section \<open>Socket paths\<close>

lemma printf_d_formats [simp]:
  "printf_d NODE_SOCK_FORMAT num = ''node_'' @ fmt_d num @ ''.sock''"
  "printf_d MINER_SOCK_FORMAT num = ''miner_'' @ fmt_d num @ ''.sock''"
  "printf_d CLIENT_SOCK_FORMAT num = ''client_'' @ fmt_d num @ ''.sock''"
  by (simp_all add: printf_d_def)

lemma fmt_d_inj: "0 \<le> i \<Longrightarrow> 0 \<le> j \<Longrightarrow> fmt_d i = fmt_d j \<longleftrightarrow> i = j"
  by (auto simp: fmt_d_def fmt_u_inj)

lemma socket_path_inj:
  assumes "ipc_build_socket_path (Some dir) (Some f) i size1 = Inr p"
    "ipc_build_socket_path (Some dir) (Some g) j size2 = Inr p"
    "f \<in> {NODE_SOCK_FORMAT, MINER_SOCK_FORMAT, CLIENT_SOCK_FORMAT}"
    "g \<in> {NODE_SOCK_FORMAT, MINER_SOCK_FORMAT, CLIENT_SOCK_FORMAT}" "0 \<le> i" "0 \<le> j"
  shows "f = g \<and> i = j"
  using assms
  by (auto simp: ipc_build_socket_path_def Let_def fmt_d_inj split: if_splits)

lemma socket_path_length:
  "ipc_build_socket_path dir f i out_size = Inr p \<Longrightarrow> length p < MAX_SOCKET_PATH_LEN \<and> length p < out_size"
  by (auto simp: ipc_build_socket_path_def Let_def split: option.splits if_splits)

section \<open>Properties\<close>

text \<open>
  C27. Messages arrive as they were sent: however the kernel splits and interrupts the writes of the
  sender and the reads of the receiver, as long as no call fails, \<open>ipc_send\<close> succeeds and \<open>ipc_recv\<close>
  returns the header and the payload that were given to it, the null pointer for an empty one.
\<close>

theorem message_delivered:
  assumes "no_errors sw" "no_errors sr" "length payload \<le> MAX_PAYLOAD_SIZE" "al (length payload)"
  shows "\<exists>bytes. ipc_send sw kind sender (Some payload) (length payload) = (PROJECT_OK, bytes)
    \<and> ipc_recv al sr bytes = Inr (\<lparr>magic = PROTOCOL_MAGIC, version = PROTOCOL_VERSION, msg_type = message_code kind,
         sender_id = sender, payload_len = of_nat (length payload)\<rparr>, payload_ptr payload)"
proof -
  obtain m where m: "ipc_message kind sender (Some payload) (length payload) = Inr m"
    and h: "fst m = \<lparr>magic = PROTOCOL_MAGIC, version = PROTOCOL_VERSION, msg_type = message_code kind,
         sender_id = sender, payload_len = of_nat (length payload)\<rparr>"
    using assms(3) by (simp add: ipc_message_def)
  have ok: "message_ok m" "snd m = payload" using ipc_message_ok [OF m] by simp_all
  have "ipc_send sw kind sender (Some payload) (length payload) = (PROJECT_OK, wire_bytes m)"
    using m assms(1) by (intro ipc_send_eq) simp_all
  moreover have "ipc_recv al sr (wire_bytes m @ []) = Inr (fst m, payload_ptr (snd m))"
    using ok assms(2,4) by (intro ipc_recv_eq) simp_all
  ultimately show ?thesis using ok h by simp
qed

theorem message_delivered_witness:
  "\<exists>bytes. ipc_send [SYS_moves 3, SYS_eintr, SYS_moves 0] MSG_TX_ACK 5 (Some ''OK'') 2 = (PROJECT_OK, bytes)
    \<and> ipc_recv no_oom [SYS_eintr, SYS_moves 1, SYS_moves 17] bytes =
      Inr (\<lparr>magic = PROTOCOL_MAGIC, version = PROTOCOL_VERSION, msg_type = 2, sender_id = 5, payload_len = 2\<rparr>, Some ''OK'')"
  using message_delivered [of "[SYS_moves 3, SYS_eintr, SYS_moves 0]" "[SYS_eintr, SYS_moves 1, SYS_moves 17]" "''OK''" no_oom
      MSG_TX_ACK 5] by (simp add: payload_ptr_def numeral_2_eq_2)

text \<open>
  C28. A cut connection is noticed: for every message and every proper prefix of its bytes, whatever
  the kernel answers, \<open>ipc_recv\<close> reports an error and returns no message. And a header that is
  accepted has the protocol's magic number and version and a payload of at most 65536 bytes.
\<close>

theorem truncated_message_refused:
  assumes "message_ok m" "n < length (wire_bytes m)"
  shows "ipc_recv al sc (take n (wire_bytes m)) \<in> {Inl ERR_IPC, Inl ERR_MEMORY_ALLOCATION}
    \<and> (ipc_recv al' sc' av = Inr (h, p) \<longrightarrow>
         magic h = PROTOCOL_MAGIC \<and> version h = PROTOCOL_VERSION \<and> unat (payload_len h) \<le> MAX_PAYLOAD_SIZE)"
  using ipc_recv_truncated [OF assms] ipc_recv_OK [of al' sc' av h p] by blast

theorem truncated_message_refused_witness:
  "ipc_recv no_oom [SYS_moves 4] (take 17 (wire_bytes
     (\<lparr>magic = PROTOCOL_MAGIC, version = PROTOCOL_VERSION, msg_type = 2, sender_id = 5, payload_len = 2\<rparr>, ''OK'')))
   \<in> {Inl ERR_IPC, Inl ERR_MEMORY_ALLOCATION}"
  using truncated_message_refused [of "(\<lparr>magic = PROTOCOL_MAGIC, version = PROTOCOL_VERSION, msg_type = 2,
      sender_id = 5, payload_len = 2\<rparr>, ''OK'')" 17 no_oom "[SYS_moves 4]"]
  by (simp add: message_ok_def wire_bytes_def)

text \<open>
  C33. Socket paths do not clash: in one runtime directory two processes whose paths are built have
  the same path only if they have the same role and the same number, and every path that is built
  fits into a socket address with its terminator.
\<close>

theorem socket_paths_distinct:
  assumes "ipc_build_socket_path (Some dir) (Some f) i size1 = Inr p"
    "ipc_build_socket_path (Some dir) (Some g) j size2 = Inr p"
    "f \<in> {NODE_SOCK_FORMAT, MINER_SOCK_FORMAT, CLIENT_SOCK_FORMAT}"
    "g \<in> {NODE_SOCK_FORMAT, MINER_SOCK_FORMAT, CLIENT_SOCK_FORMAT}" "0 \<le> i" "0 \<le> j"
  shows "f = g \<and> i = j \<and> length p < MAX_SOCKET_PATH_LEN"
  using socket_path_inj [OF assms] socket_path_length [OF assms(1)] by simp

theorem socket_paths_distinct_witness:
  "ipc_build_socket_path (Some ''/tmp/x'') (Some NODE_SOCK_FORMAT) 3 108 = Inr ''/tmp/x/node_3.sock''
   \<and> length ''/tmp/x/node_3.sock'' < MAX_SOCKET_PATH_LEN"
proof -
  have p: "ipc_build_socket_path (Some ''/tmp/x'') (Some NODE_SOCK_FORMAT) 3 108 = Inr ''/tmp/x/node_3.sock''"
    by (simp add: ipc_build_socket_path_def Let_def fmt_d_def fmt_u.simps digit_char_def)
  show ?thesis using socket_paths_distinct [OF p p] p by simp
qed

end
