(* ===== verification/NodeQueue.thy ===== *)
theory NodeQueue
  imports Ipc
begin

text \<open>
  The queue between the receiver thread and the workers of a node (\<^verbatim>\<open>include/node_queue.h\<close>,
  \<^verbatim>\<open>common/node_queue.c\<close>): a ring of 64 messages under one mutex with two condition variables. An
  operation is what a thread does while it holds the mutex; \<open>None\<close> says that it goes to sleep on its
  condition variable. The contract of a bounded first-in first-out queue is the locale
  \<open>bounded_fifo\<close>, interpreted for the ring; sleeping, waking and shutdown are the step relation
  \<open>queue_step\<close>.
\<close>

section \<open>Operations\<close>

abbreviation NODE_QUEUE_CAPACITY :: nat where
  "NODE_QUEUE_CAPACITY \<equiv> 64"

record queue_message_t =
  q_header :: message_header_t
  q_payload :: "char list ptr"
  q_client_fd :: nat

record node_queue_t =
  q_items :: "queue_message_t list"
  q_head :: nat
  q_tail :: nat
  q_count :: nat
  q_shutting_down :: bool

definition queue_message_zero :: queue_message_t where
  "queue_message_zero =
     \<lparr>q_header = \<lparr>magic = 0, version = 0, msg_type = 0, sender_id = 0, payload_len = 0\<rparr>,
      q_payload = None, q_client_fd = 0\<rparr>"

definition node_queue_init :: "node_queue_t ptr \<Rightarrow> project_error_t \<times> node_queue_t ptr" where
  "node_queue_init q =
     (case q of
        None \<Rightarrow> (ERR_INVALID_ARGUMENT, None)
      | Some _ \<Rightarrow>
          (PROJECT_OK,
           Some \<lparr>q_items = replicate NODE_QUEUE_CAPACITY queue_message_zero, q_head = 0, q_tail = 0,
                 q_count = 0, q_shutting_down = False\<rparr>))"

definition node_queue_push ::
  "node_queue_t ptr \<Rightarrow> queue_message_t ptr \<Rightarrow> (project_error_t \<times> node_queue_t ptr) option" where
  "node_queue_push q msg =
     (case (q, msg) of
        (Some r, Some m) \<Rightarrow>
          if q_count r = NODE_QUEUE_CAPACITY \<and> \<not> q_shutting_down r then None
          else if q_shutting_down r then Some (ERR_IPC, q)
          else Some (PROJECT_OK,
                 Some (r\<lparr>q_items := (q_items r)[q_tail r := m],
                         q_tail := (q_tail r + 1) mod NODE_QUEUE_CAPACITY,
                         q_count := q_count r + 1\<rparr>))
      | _ \<Rightarrow> Some (ERR_INVALID_ARGUMENT, q))"

text \<open>A pop also returns the message it stored into \<open>out\<close>.\<close>

definition node_queue_pop ::
  "node_queue_t ptr \<Rightarrow> (project_error_t \<times> queue_message_t ptr \<times> node_queue_t ptr) option" where
  "node_queue_pop q =
     (case q of
        None \<Rightarrow> Some (ERR_INVALID_ARGUMENT, None, q)
      | Some r \<Rightarrow>
          if q_count r = 0 \<and> \<not> q_shutting_down r then None
          else if q_count r = 0 \<and> q_shutting_down r then Some (ERR_NOT_FOUND, None, q)
          else Some (PROJECT_OK, Some (q_items r ! q_head r),
                 Some (r\<lparr>q_head := (q_head r + 1) mod NODE_QUEUE_CAPACITY, q_count := q_count r - 1\<rparr>)))"

definition node_queue_shutdown :: "node_queue_t ptr \<Rightarrow> node_queue_t ptr" where
  "node_queue_shutdown q = map_option (\<lambda>r. r\<lparr>q_shutting_down := True\<rparr>) q"

section \<open>The contract of a bounded queue\<close>

datatype 'm queue_op = Put 'm | Get

locale bounded_fifo =
  fixes inv :: "'q \<Rightarrow> bool" and contents :: "'q \<Rightarrow> 'm list" and bound :: nat
    and put :: "'q \<Rightarrow> 'm \<Rightarrow> 'q option" and get :: "'q \<Rightarrow> ('m \<times> 'q) option"
  assumes put_some: "inv q \<Longrightarrow> put q m = Some q' \<Longrightarrow> inv q' \<and> contents q' = contents q @ [m]"
    and get_some: "inv q \<Longrightarrow> get q = Some (m, q') \<Longrightarrow> inv q' \<and> contents q = m # contents q'"
    and get_none: "inv q \<Longrightarrow> get q = None \<longleftrightarrow> contents q = []"
    and within: "inv q \<Longrightarrow> length (contents q) \<le> bound"
begin

text \<open>A run of operations: the operations that would sleep are skipped. It collects what was accepted and delivered.\<close>

fun run :: "'q \<Rightarrow> 'm queue_op list \<Rightarrow> 'm list \<times> 'm list \<times> 'q" where
  "run q [] = ([], [], q)"
| "run q (Put m # ops) =
     (case put q m of
        None \<Rightarrow> run q ops
      | Some q' \<Rightarrow> (case run q' ops of (ins, outs, r) \<Rightarrow> (m # ins, outs, r)))"
| "run q (Get # ops) =
     (case get q of
        None \<Rightarrow> run q ops
      | Some (m, q') \<Rightarrow> (case run q' ops of (ins, outs, r) \<Rightarrow> (ins, m # outs, r)))"

lemma run_fifo:
  "inv q \<Longrightarrow> run q ops = (ins, outs, r) \<Longrightarrow> inv r \<and> contents q @ ins = outs @ contents r"
proof (induction q ops arbitrary: ins outs r rule: run.induct)
  case (2 q m ops)
  show ?case
  proof (cases "put q m")
    case None
    with 2 show ?thesis by simp
  next
    case (Some q')
    obtain i o' r' where run: "run q' ops = (i, o', r')" by (metis prod_cases3)
    from put_some [OF 2(3) Some] 2(2) [OF Some _ run] have "inv r' \<and> contents q @ m # i = o' @ contents r'" by simp
    with 2(4) Some run show ?thesis by simp
  qed
next
  case (3 q ops)
  show ?case
  proof (cases "get q")
    case None
    with 3 show ?thesis by simp
  next
    case (Some p)
    obtain m q' where p: "p = (m, q')" by fastforce
    obtain i o' r' where run: "run q' ops = (i, o', r')" by (metis prod_cases3)
    from get_some [OF 3(3) Some [unfolded p]] 3(2) [OF Some p [symmetric] _ run]
    have "inv r' \<and> contents q @ i = m # o' @ contents r'" by simp
    with 3(4) Some p run show ?thesis by simp
  qed
qed simp

lemma drain: "inv q \<Longrightarrow> run q (replicate (length (contents q)) Get) = ([], contents q, r) \<Longrightarrow> contents r = []"
  using run_fifo by fastforce

end

section \<open>The ring implements the contract\<close>

definition queue_wf :: "node_queue_t \<Rightarrow> bool" where
  "queue_wf q \<longleftrightarrow>
     length (q_items q) = NODE_QUEUE_CAPACITY \<and> q_head q < NODE_QUEUE_CAPACITY
     \<and> q_count q \<le> NODE_QUEUE_CAPACITY \<and> q_tail q = (q_head q + q_count q) mod NODE_QUEUE_CAPACITY"

definition queue_list :: "node_queue_t \<Rightarrow> queue_message_t list" where
  "queue_list q = map (\<lambda>i. q_items q ! ((q_head q + i) mod NODE_QUEUE_CAPACITY)) [0..<q_count q]"

definition ring_put :: "node_queue_t \<Rightarrow> queue_message_t \<Rightarrow> node_queue_t option" where
  "ring_put q m = (case node_queue_push (Some q) (Some m) of
     Some (rc, Some q') \<Rightarrow> if rc = PROJECT_OK then Some q' else None | _ \<Rightarrow> None)"

definition ring_get :: "node_queue_t \<Rightarrow> (queue_message_t \<times> node_queue_t) option" where
  "ring_get q = (case node_queue_pop (Some q) of Some (rc, Some m, Some q') \<Rightarrow> Some (m, q') | _ \<Rightarrow> None)"

lemma node_queue_init_wf:
  "node_queue_init (Some q) = (PROJECT_OK, Some q') \<Longrightarrow> queue_wf q' \<and> queue_list q' = [] \<and> \<not> q_shutting_down q'"
  by (auto simp: node_queue_init_def queue_wf_def queue_list_def)

lemma length_queue_list [simp]: "length (queue_list q) = q_count q"
  by (simp add: queue_list_def)

lemma ring_slot_distinct:
  "i < n \<Longrightarrow> n < 64 \<Longrightarrow> (h + i) mod 64 \<noteq> (h + n) mod (64::nat)"
proof
  assume "i < n" "n < 64" "(h + i) mod 64 = (h + n) mod (64::nat)"
  then have "64 dvd (h + n) - (h + i)" using mod_eq_dvd_iff_nat [of "h + i" "h + n" 64] by simp
  then have "64 dvd n - i" by simp
  with \<open>i < n\<close> \<open>n < 64\<close> show False by (auto dest: dvd_imp_le)
qed

lemma push_OK:
  assumes "queue_wf q" "node_queue_push (Some q) (Some m) = Some (PROJECT_OK, r)"
  shows "\<exists>q'. r = Some q' \<and> queue_wf q' \<and> queue_list q' = queue_list q @ [m]
              \<and> q_shutting_down q' = q_shutting_down q \<and> q_count q' = Suc (q_count q)"
proof -
  let ?q' = "q\<lparr>q_items := (q_items q)[q_tail q := m], q_tail := (q_tail q + 1) mod 64, q_count := q_count q + 1\<rparr>"
  have r: "r = Some ?q'" and full: "q_count q < 64"
    using assms by (auto simp: node_queue_push_def queue_wf_def split: if_splits)
  have "queue_wf ?q'" using assms(1) full by (auto simp: queue_wf_def mod_Suc_eq)
  moreover have "queue_list ?q' = queue_list q @ [m]"
  proof -
    have t: "q_tail q = (q_head q + q_count q) mod 64" "length (q_items q) = 64"
      using assms(1) by (simp_all add: queue_wf_def)
    have "(q_items q)[q_tail q := m] ! ((q_head q + i) mod 64) = q_items q ! ((q_head q + i) mod 64)"
      if "i < q_count q" for i
      using that full t ring_slot_distinct [of i "q_count q" "q_head q"] by simp
    moreover have "(q_items q)[q_tail q := m] ! ((q_head q + q_count q) mod 64) = m"
      using t by simp
    ultimately show ?thesis by (auto simp: queue_list_def)
  qed
  ultimately show ?thesis using r by auto
qed

lemma pop_OK:
  assumes "queue_wf q" "node_queue_pop (Some q) = Some (PROJECT_OK, p, r)"
  shows "\<exists>m q'. p = Some m \<and> r = Some q' \<and> queue_wf q' \<and> queue_list q = m # queue_list q'
              \<and> q_shutting_down q' = q_shutting_down q \<and> q_count q = Suc (q_count q')"
proof -
  let ?q' = "q\<lparr>q_head := (q_head q + 1) mod 64, q_count := q_count q - 1\<rparr>"
  have r: "r = Some ?q'" "p = Some (q_items q ! q_head q)" and ne: "0 < q_count q"
    using assms by (auto simp: node_queue_pop_def split: if_splits)
  have "((q_head q + 1) mod 64 + (q_count q - 1)) mod 64 = (q_head q + q_count q) mod 64"
    using ne by (simp only: mod_add_left_eq) simp
  then have "queue_wf ?q'" using assms(1) by (simp add: queue_wf_def le_diff_conv)
  moreover have "queue_list q = q_items q ! q_head q # queue_list ?q'"
  proof -
    obtain n where n: "q_count q = Suc n" using ne by (cases "q_count q") auto
    have "q_head q mod 64 = q_head q" using assms(1) by (simp add: queue_wf_def)
    then show ?thesis
      by (simp add: queue_list_def n upt_conv_Cons map_Suc_upt [symmetric] mod_add_left_eq comp_def del: upt_Suc)
  qed
  ultimately show ?thesis using r ne by auto
qed

interpretation ring: bounded_fifo queue_wf queue_list NODE_QUEUE_CAPACITY ring_put ring_get
proof
  fix q m q' assume "queue_wf q" "ring_put q m = Some q'"
  then show "queue_wf q' \<and> queue_list q' = queue_list q @ [m]"
    using push_OK by (fastforce simp: ring_put_def split: option.splits if_splits)
next
  fix q m q' assume "queue_wf q" "ring_get q = Some (m, q')"
  then show "queue_wf q' \<and> queue_list q = m # queue_list q'"
    using pop_OK [of q "Some m" "Some q'"]
    by (auto simp: ring_get_def node_queue_pop_def split: option.splits if_splits)
next
  fix q assume "queue_wf q"
  then show "ring_get q = None \<longleftrightarrow> queue_list q = []"
    by (auto simp: ring_get_def node_queue_pop_def queue_list_def split: option.splits if_splits)
qed (simp add: queue_wf_def)

section \<open>Sleeping and waking\<close>

text \<open>
  The threads around the queue: how many sleep on each condition variable, and how many were woken
  and have not looked at the queue again. \<open>accepted\<close> and \<open>delivered\<close> record the messages that went
  in and out. A thread that enters an operation is either one that was woken (\<open>w\<close> true) or one that
  just called it. A signal wakes one sleeper if there is one, a broadcast wakes all of them, and a
  sleeper may wake without a signal.
\<close>

record queue_threads =
  ring_q :: node_queue_t
  pop_sleeping :: nat
  pop_woken :: nat
  push_sleeping :: nat
  push_woken :: nat
  accepted :: "queue_message_t list"
  delivered :: "queue_message_t list"

abbreviation leave_woken :: "bool \<Rightarrow> nat \<Rightarrow> nat" where
  "leave_woken w n \<equiv> if w then n - 1 else n"

definition signal_not_empty :: "queue_threads \<Rightarrow> queue_threads" where
  "signal_not_empty s =
     (if 0 < pop_sleeping s then s\<lparr>pop_sleeping := pop_sleeping s - 1, pop_woken := pop_woken s + 1\<rparr> else s)"

definition signal_not_full :: "queue_threads \<Rightarrow> queue_threads" where
  "signal_not_full s =
     (if 0 < push_sleeping s then s\<lparr>push_sleeping := push_sleeping s - 1, push_woken := push_woken s + 1\<rparr> else s)"

definition broadcast_both :: "queue_threads \<Rightarrow> queue_threads" where
  "broadcast_both s =
     s\<lparr>pop_woken := pop_woken s + pop_sleeping s, pop_sleeping := 0,
       push_woken := push_woken s + push_sleeping s, push_sleeping := 0\<rparr>"

inductive queue_step :: "queue_threads \<Rightarrow> queue_threads \<Rightarrow> bool" where
  push_done: "node_queue_push (Some (ring_q s)) (Some m) = Some (PROJECT_OK, Some q') \<Longrightarrow>
    w \<longrightarrow> 0 < push_woken s \<Longrightarrow>
    queue_step s (signal_not_empty (s\<lparr>ring_q := q', push_woken := leave_woken w (push_woken s),
                                      accepted := accepted s @ [m]\<rparr>))"
| push_refused: "node_queue_push (Some (ring_q s)) (Some m) = Some (ERR_IPC, Some q') \<Longrightarrow>
    w \<longrightarrow> 0 < push_woken s \<Longrightarrow>
    queue_step s (s\<lparr>ring_q := q', push_woken := leave_woken w (push_woken s)\<rparr>)"
| push_sleeps: "node_queue_push (Some (ring_q s)) (Some m) = None \<Longrightarrow> w \<longrightarrow> 0 < push_woken s \<Longrightarrow>
    queue_step s (s\<lparr>push_woken := leave_woken w (push_woken s), push_sleeping := push_sleeping s + 1\<rparr>)"
| pop_done: "node_queue_pop (Some (ring_q s)) = Some (PROJECT_OK, Some m, Some q') \<Longrightarrow>
    w \<longrightarrow> 0 < pop_woken s \<Longrightarrow>
    queue_step s (signal_not_full (s\<lparr>ring_q := q', pop_woken := leave_woken w (pop_woken s),
                                     delivered := delivered s @ [m]\<rparr>))"
| pop_refused: "node_queue_pop (Some (ring_q s)) = Some (ERR_NOT_FOUND, None, Some q') \<Longrightarrow>
    w \<longrightarrow> 0 < pop_woken s \<Longrightarrow>
    queue_step s (s\<lparr>ring_q := q', pop_woken := leave_woken w (pop_woken s)\<rparr>)"
| pop_sleeps: "node_queue_pop (Some (ring_q s)) = None \<Longrightarrow> w \<longrightarrow> 0 < pop_woken s \<Longrightarrow>
    queue_step s (s\<lparr>pop_woken := leave_woken w (pop_woken s), pop_sleeping := pop_sleeping s + 1\<rparr>)"
| shuts_down: "node_queue_shutdown (Some (ring_q s)) = Some q' \<Longrightarrow>
    queue_step s (broadcast_both (s\<lparr>ring_q := q'\<rparr>))"
| wakes_pop: "0 < pop_sleeping s \<Longrightarrow> queue_step s (signal_not_empty s)"
| wakes_push: "0 < push_sleeping s \<Longrightarrow> queue_step s (signal_not_full s)"

definition queue_start :: queue_threads where
  "queue_start =
     \<lparr>ring_q = the (snd (node_queue_init (Some \<lparr>q_items = [], q_head = 0, q_tail = 0, q_count = 0,
        q_shutting_down = False\<rparr>))), pop_sleeping = 0, pop_woken = 0,
      push_sleeping = 0, push_woken = 0, accepted = [], delivered = []\<rparr>"

inductive queue_reachable :: "queue_threads \<Rightarrow> bool" where
  queue_starts: "queue_reachable queue_start"
| queue_steps: "queue_reachable s \<Longrightarrow> queue_step s s' \<Longrightarrow> queue_reachable s'"

text \<open>
  The invariant: the ring is well-formed, what went in is what came out followed by what is in the
  ring, no thread sleeps once the queue is shut down, and no wake-up is lost: while a thread sleeps
  for messages there are at least as many woken takers as messages, and dually for free slots.
\<close>

definition queue_inv :: "queue_threads \<Rightarrow> bool" where
  "queue_inv s \<longleftrightarrow>
     queue_wf (ring_q s) \<and> accepted s = delivered s @ queue_list (ring_q s)
     \<and> (q_shutting_down (ring_q s) \<longrightarrow> pop_sleeping s = 0 \<and> push_sleeping s = 0)
     \<and> (0 < pop_sleeping s \<longrightarrow> q_count (ring_q s) \<le> pop_woken s)
     \<and> (0 < push_sleeping s \<longrightarrow> NODE_QUEUE_CAPACITY - q_count (ring_q s) \<le> push_woken s)"

lemma queue_inv_start: "queue_inv queue_start"
  by (simp add: queue_inv_def queue_start_def node_queue_init_def queue_wf_def queue_list_def)

lemma push_None: "node_queue_push (Some q) (Some m) = None \<longleftrightarrow> q_count q = NODE_QUEUE_CAPACITY \<and> \<not> q_shutting_down q"
  by (auto simp: node_queue_push_def)

lemma pop_None: "node_queue_pop (Some q) = None \<longleftrightarrow> q_count q = 0 \<and> \<not> q_shutting_down q"
  by (auto simp: node_queue_pop_def)

lemma push_refused_same: "node_queue_push (Some q) (Some m) = Some (ERR_IPC, Some q') \<Longrightarrow> q' = q \<and> q_shutting_down q"
  by (auto simp: node_queue_push_def split: if_splits)

lemma pop_refused_same:
  "node_queue_pop (Some q) = Some (ERR_NOT_FOUND, p, Some q') \<Longrightarrow> q' = q \<and> q_shutting_down q \<and> q_count q = 0"
  by (auto simp: node_queue_pop_def split: if_splits)

lemma push_done_inv:
  assumes "queue_inv s" "node_queue_push (Some (ring_q s)) (Some m) = Some (PROJECT_OK, Some q')"
    "w \<longrightarrow> 0 < push_woken s"
  shows "queue_inv (signal_not_empty (s\<lparr>ring_q := q', push_woken := leave_woken w (push_woken s),
                                      accepted := accepted s @ [m]\<rparr>))"
proof -
  have q': "queue_wf q'" "queue_list q' = queue_list (ring_q s) @ [m]"
    "q_shutting_down q' = q_shutting_down (ring_q s)" "q_count q' = Suc (q_count (ring_q s))"
    using push_OK [OF _ assms(2)] assms(1) by (auto simp: queue_inv_def)
  then show ?thesis using assms(1,3) by (auto simp: queue_inv_def signal_not_empty_def)
qed

lemma pop_done_inv:
  assumes "queue_inv s" "node_queue_pop (Some (ring_q s)) = Some (PROJECT_OK, Some m, Some q')"
    "w \<longrightarrow> 0 < pop_woken s"
  shows "queue_inv (signal_not_full (s\<lparr>ring_q := q', pop_woken := leave_woken w (pop_woken s),
                                     delivered := delivered s @ [m]\<rparr>))"
proof -
  have q': "queue_wf q'" "queue_list (ring_q s) = m # queue_list q'"
    "q_shutting_down q' = q_shutting_down (ring_q s)" "q_count (ring_q s) = Suc (q_count q')"
    using pop_OK [OF _ assms(2)] assms(1) by (auto simp: queue_inv_def)
  moreover have "q_count (ring_q s) \<le> NODE_QUEUE_CAPACITY"
    using assms(1) by (simp add: queue_inv_def queue_wf_def)
  ultimately show ?thesis using assms(1,3) by (auto simp: queue_inv_def signal_not_full_def)
qed

lemma queue_step_inv: "queue_step s s' \<Longrightarrow> queue_inv s \<Longrightarrow> queue_inv s'"
proof (induction rule: queue_step.induct)
  case (push_done s m q' w)
  then show ?case by (intro push_done_inv)
next
  case (pop_done s m q' w)
  then show ?case by (intro pop_done_inv)
next
  case (shuts_down s q')
  then show ?case
    by (auto simp: queue_inv_def broadcast_both_def node_queue_shutdown_def queue_wf_def queue_list_def)
qed (auto simp: queue_inv_def push_None pop_None signal_not_empty_def signal_not_full_def
    dest: push_refused_same pop_refused_same)

lemma queue_reachable_inv: "queue_reachable s \<Longrightarrow> queue_inv s"
  by (induction rule: queue_reachable.induct) (auto intro: queue_inv_start queue_step_inv)

section \<open>Properties\<close>

text \<open>
  C5. The queue under any interleaving of its threads: the messages accepted so far are the messages
  delivered so far followed by those in the ring, in order (first in, first out, nothing lost or
  duplicated), and there are at most 64 in the ring. No wake-up is lost: while a worker sleeps for a
  message, the messages in the ring are covered by workers that were woken and will look again, and
  while a producer sleeps for space, so are the free slots. After a shutdown nobody sleeps.
\<close>

theorem queue_fifo_no_lost_wakeup:
  assumes "queue_reachable s"
  shows "accepted s = delivered s @ queue_list (ring_q s)
    \<and> length (queue_list (ring_q s)) \<le> NODE_QUEUE_CAPACITY
    \<and> (0 < pop_sleeping s \<longrightarrow> length (queue_list (ring_q s)) \<le> pop_woken s)
    \<and> (0 < push_sleeping s \<longrightarrow> NODE_QUEUE_CAPACITY - length (queue_list (ring_q s)) \<le> push_woken s)
    \<and> (q_shutting_down (ring_q s) \<longrightarrow> pop_sleeping s = 0 \<and> push_sleeping s = 0)"
  using queue_reachable_inv [OF assms] by (simp add: queue_inv_def queue_wf_def)

theorem queue_fifo_no_lost_wakeup_witness:
  "\<exists>s. queue_reachable s \<and> pop_sleeping s = 1 \<and> length (queue_list (ring_q s)) \<le> pop_woken s"
proof -
  let ?s = "queue_start\<lparr>pop_woken := leave_woken False (pop_woken queue_start),
                         pop_sleeping := pop_sleeping queue_start + 1\<rparr>"
  have "node_queue_pop (Some (ring_q queue_start)) = None"
    by (simp add: queue_start_def node_queue_init_def node_queue_pop_def)
  then have "queue_step queue_start ?s" by (rule pop_sleeps) simp
  then have r: "queue_reachable ?s" using queue_starts by (rule queue_steps [rotated])
  have "pop_sleeping ?s = 1" by (simp add: queue_start_def)
  then show ?thesis using queue_fifo_no_lost_wakeup [OF r] r by (intro exI [of _ ?s]) simp
qed

text \<open>
  C30. The ring refines a bounded list: a push appends at the end unless the queue is full (the
  producer sleeps) or shut down (refused), a pop takes the first message unless there is none (the
  worker sleeps, or is told to exit after a shutdown, so that messages queued before a shutdown are
  still delivered), and both keep the ring well-formed.
\<close>

theorem ring_refines_list:
  assumes "queue_wf q"
  shows "(case node_queue_push (Some q) (Some m) of
       None \<Rightarrow> length (queue_list q) = NODE_QUEUE_CAPACITY \<and> \<not> q_shutting_down q
     | Some (rc, r) \<Rightarrow>
         if q_shutting_down q then rc = ERR_IPC \<and> r = Some q
         else rc = PROJECT_OK \<and> (\<exists>q'. r = Some q' \<and> queue_wf q' \<and> queue_list q' = queue_list q @ [m]))
   \<and> (case node_queue_pop (Some q) of
       None \<Rightarrow> queue_list q = [] \<and> \<not> q_shutting_down q
     | Some (rc, p, r) \<Rightarrow>
         if queue_list q = [] then rc = ERR_NOT_FOUND \<and> q_shutting_down q \<and> r = Some q
         else rc = PROJECT_OK \<and> (\<exists>m q'. p = Some m \<and> r = Some q' \<and> queue_wf q' \<and> queue_list q = m # queue_list q'))"
proof -
  have push: "node_queue_push (Some q) (Some m) = Some (rc, r) \<Longrightarrow> \<not> q_shutting_down q \<Longrightarrow> rc = PROJECT_OK" for rc r
    by (auto simp: node_queue_push_def split: if_splits)
  have pop: "node_queue_pop (Some q) = Some (rc, p, r) \<Longrightarrow> q_count q \<noteq> 0 \<Longrightarrow> rc = PROJECT_OK" for rc p r
    by (auto simp: node_queue_pop_def split: if_splits)
  have empty: "queue_list q = [] \<longleftrightarrow> q_count q = 0" by (metis length_0_conv length_queue_list)
  show ?thesis
    using push_OK [OF assms, of m] pop_OK [OF assms] push pop push_None [of q m] pop_None [of q] empty
    by (auto split: option.splits simp: node_queue_push_def [of "Some q"] node_queue_pop_def [of "Some q"])
qed

theorem ring_refines_list_witness:
  "queue_wf (ring_q queue_start) \<and> node_queue_pop (Some (ring_q queue_start)) = None \<and> queue_list (ring_q queue_start) = []"
proof -
  have wf: "queue_wf (ring_q queue_start)" using queue_inv_start by (simp add: queue_inv_def)
  have n: "node_queue_pop (Some (ring_q queue_start)) = None"
    by (simp add: queue_start_def node_queue_init_def node_queue_pop_def)
  from ring_refines_list [OF wf, of queue_message_zero] wf n show ?thesis by simp
qed

end
