(* ===== verification/Node.thy ===== *)
theory Node
  imports Validation NodeQueue "HOL-Library.Sublist"
begin

text \<open>
  The node process (\<^verbatim>\<open>include/node.h\<close>, \<^verbatim>\<open>node/node.c\<close>): it keeps a chain under a mutex, answers
  queries, and accepts blocks: node 0, the coordinator, from miners' proposals, the other nodes from
  the coordinator's commits or by synchronising with it. A handler takes the state of the node and a
  message and returns the new state and the messages it sends. The outside world is an argument:
  the allocator, the socket layer per path, and the reply to a synchronisation request. Log lines
  and console output are left out.
\<close>

section \<open>State, messages, environment\<close>

record node_t =
  n_id :: int
  n_coordinator :: bool
  n_runtime_dir :: string
  n_sock_path :: string
  n_server_fd :: int
  n_chain :: blockchain_t
  n_queue :: node_queue_t
  n_running :: bool

datatype node_output =
    Reply nat "message_header_t \<times> char list"
  | Sent string "message_header_t \<times> char list"

type_synonym net = "string \<Rightarrow> endpoint_env"

abbreviation MAX_PROBE_PEERS :: nat where
  "MAX_PROBE_PEERS \<equiv> 16"

text \<open>The memory of a string literal, with its terminator.\<close>

definition lit :: "string \<Rightarrow> char list ptr" where
  "lit s = Some (s @ [CHR 0x00])"

text \<open>A reply on the connection of the message; a send that is refused leaves no trace.\<close>

definition reply :: "node_t \<Rightarrow> queue_message_t \<Rightarrow> message_type_t \<Rightarrow> char list ptr \<Rightarrow> nat \<Rightarrow> node_output list" where
  "reply node msg type payload len =
     (case ipc_message type (of_int (n_id node)) payload len of
        Inl e \<Rightarrow> [] | Inr m \<Rightarrow> [Reply (q_client_fd msg) m])"

text \<open>Connect to a peer, send one message, close.\<close>

definition send_to ::
  "net \<Rightarrow> node_t \<Rightarrow> string \<Rightarrow> int \<Rightarrow> message_type_t \<Rightarrow> string \<Rightarrow> node_output list" where
  "send_to net node format num type line =
     (case ipc_build_socket_path (Some (n_runtime_dir node)) (Some format) num MAX_SOCKET_PATH_LEN of
        Inl e \<Rightarrow> []
      | Inr path \<Rightarrow>
          (case ipc_connect (net path) (Some path) of
             Inl e \<Rightarrow> []
           | Inr fd \<Rightarrow>
               (case ipc_message type (of_int (n_id node)) (Some line) (length line) of
                  Inl e \<Rightarrow> [] | Inr m \<Rightarrow> [Sent path m])))"

text \<open>The payload copied into a terminated buffer, read as a string.\<close>

definition payload_string :: "queue_message_t \<Rightarrow> string" where
  "payload_string msg =
     cstr (case q_payload msg of None \<Rightarrow> [] | Some p \<Rightarrow> take (unat (payload_len (q_header msg))) p)"

abbreviation msg_len :: "queue_message_t \<Rightarrow> nat" where
  "msg_len msg \<equiv> unat (payload_len (q_header msg))"

definition last_block :: "blockchain_t \<Rightarrow> block_t ptr" where
  "last_block c = (if 0 < chain_count c then Some (blocks c ! (chain_count c - 1)) else None)"

section \<open>Proposals\<close>

definition broadcast_commit :: "alloc \<Rightarrow> net \<Rightarrow> node_t \<Rightarrow> block_t \<Rightarrow> node_output list" where
  "broadcast_commit al net node committed =
     (case block_to_csv al (Some committed) of
        Inl e \<Rightarrow> []
      | Inr line \<Rightarrow>
          concat (map (\<lambda>i. if int i = n_id node then []
                           else send_to net node NODE_SOCK_FORMAT (int i) MSG_BLOCK_COMMIT line)
                      [0..<MAX_PROBE_PEERS])
          @ concat (map (\<lambda>i. send_to net node MINER_SOCK_FORMAT (int i) MSG_BLOCK_COMMIT line)
                      [0..<MAX_PROBE_PEERS]))"

definition handle_block_proposal ::
  "alloc \<Rightarrow> net \<Rightarrow> node_t \<Rightarrow> queue_message_t \<Rightarrow> node_t \<times> node_output list" where
  "handle_block_proposal al net node msg =
     (if q_payload msg = None \<or> msg_len msg = 0
      then (node, reply node msg MSG_BLOCK_REJECT (lit ''empty proposal'') 14)
      else if \<not> al (msg_len msg + 1)
      then (node, reply node msg MSG_RESPONSE_ERR (lit ''out of memory'') 13)
      else (case block_from_csv al (Some (payload_string msg)) of
              Inl e \<Rightarrow> (node, reply node msg MSG_BLOCK_REJECT (lit ''malformed block'') 15)
            | Inr proposed \<Rightarrow>
                (let valid = (validate_block_structure al (Some proposed) = PROJECT_OK
                              \<and> validate_block_merkle_root al (Some proposed) = PROJECT_OK
                              \<and> (case last_block (n_chain node) of
                                    None \<Rightarrow> index proposed = 0
                                  | Some l \<Rightarrow> validate_block_link al (Some l) (Some proposed) = PROJECT_OK))
                 in if \<not> valid
                    then (node, reply node msg MSG_BLOCK_REJECT (lit ''invalid proposal'') 16)
                    else (case blockchain_append al (Some (n_chain node)) (Some proposed) of
                            (rc, chain') \<Rightarrow>
                              let node' = node\<lparr>n_chain := the chain'\<rparr> in
                              if rc = PROJECT_OK
                              then (node',
                                    broadcast_commit al net node'
                                      (blocks (n_chain node') ! (chain_count (n_chain node') - 1))
                                    @ reply node' msg MSG_RESPONSE_OK None 0)
                              else (node', reply node' msg MSG_BLOCK_REJECT (lit ''append failed'') 13)))))"

section \<open>Queries\<close>

definition handle_query_height :: "node_t \<Rightarrow> queue_message_t \<Rightarrow> node_output list" where
  "handle_query_height node msg =
     (let buf = fmt_u (unat (of_nat (chain_count (n_chain node)) :: u64))
      in reply node msg MSG_RESPONSE_OK (Some buf) (length buf))"

text \<open>
  The conversions \<^verbatim>\<open>%llu\<close> and \<^verbatim>\<open>%64s\<close> of \<open>sscanf\<close> after a literal word: white space is
  skipped, a number is read as \<open>strtoull\<close> does, a word has at most 64 characters.
\<close>

definition scan_llu :: "string \<Rightarrow> u64 option" where
  "scan_llu s = (case strto_scan 10 s of None \<Rightarrow> None | Some _ \<Rightarrow> Some (fst (strtoull 10 s)))"

definition scan_option :: "string \<Rightarrow> string \<Rightarrow> string option" where
  "scan_option word s = (if take (length word) s = word then Some (drop (length word) s) else None)"

definition scan_word :: "string \<Rightarrow> string option" where
  "scan_word s =
     (let w = take 64 (takeWhile (\<lambda>c. \<not> c_isspace c) (dropWhile c_isspace s)) in if w = [] then None else Some w)"

definition scan_index_query :: "string \<Rightarrow> u64 option" where
  "scan_index_query s = Option.bind (scan_option ''--index'' s) scan_llu"

definition scan_hash_query :: "string \<Rightarrow> string option" where
  "scan_hash_query s = Option.bind (scan_option ''--hash'' s) scan_word"

definition handle_query_block :: "alloc \<Rightarrow> node_t \<Rightarrow> queue_message_t \<Rightarrow> node_output list" where
  "handle_query_block al node msg =
     (if \<not> al (msg_len msg + 1) then reply node msg MSG_RESPONSE_ERR (lit ''out of memory'') 13
      else (let payload_str = payload_string msg;
                found = (case scan_index_query payload_str of
                           Some i \<Rightarrow> blockchain_get_by_index (Some (n_chain node)) i
                         | None \<Rightarrow>
                             (case scan_hash_query payload_str of
                                Some h \<Rightarrow> blockchain_get_by_hash al (Some (n_chain node)) (Some h)
                              | None \<Rightarrow> None))
            in case found of
                 None \<Rightarrow> reply node msg MSG_RESPONSE_ERR (lit ''block not found'') 16
               | Some i \<Rightarrow>
                   (case block_to_csv al (Some (blocks (n_chain node) ! i)) of
                      Inl e \<Rightarrow> reply node msg MSG_RESPONSE_ERR (lit ''serialization failed'') 21
                    | Inr line \<Rightarrow> reply node msg MSG_RESPONSE_OK (Some line) (length line))))"

text \<open>
  Doubling a buffer until the next line fits. Both callers start with 4096 bytes; a capacity of 0,
  for which the loop would not end, does not occur.
\<close>

function grow_buffer :: "alloc \<Rightarrow> nat \<Rightarrow> nat \<Rightarrow> nat option" where
  "grow_buffer al need cap =
     (if need \<le> cap then Some cap
      else if cap = 0 then None
      else if \<not> al (cap * 2) then None
      else grow_buffer al need (cap * 2))"
  by pat_completeness auto
termination
  by (relation "measure (\<lambda>(al, need, cap). need - cap)") auto

declare grow_buffer.simps [simp del]

datatype 'a buffer_result = Buffer 'a | Buffer_oom | Buffer_bad_block

text \<open>The loop of \<open>handle_query_chain\<close>: a block that cannot be printed ends it.\<close>

fun chain_buffer :: "alloc \<Rightarrow> block_t list \<Rightarrow> string \<Rightarrow> nat \<Rightarrow> string buffer_result" where
  "chain_buffer al [] buf cap = Buffer buf"
| "chain_buffer al (b # bs) buf cap =
     (case block_to_csv al (Some b) of
        Inl e \<Rightarrow> Buffer_bad_block
      | Inr line \<Rightarrow>
          (case grow_buffer al (length buf + length line + 2) cap of
             None \<Rightarrow> Buffer_oom
           | Some cap' \<Rightarrow> chain_buffer al bs (buf @ line @ [CHR 0x0A]) cap'))"

definition handle_query_chain :: "alloc \<Rightarrow> node_t \<Rightarrow> queue_message_t \<Rightarrow> node_output list" where
  "handle_query_chain al node msg =
     (if 0 < msg_len msg \<and> \<not> al (msg_len msg + 1)
      then reply node msg MSG_RESPONSE_ERR (lit ''out of memory'') 13
      else (let payload_str = payload_string msg;
                answer = (\<lambda>start.
                  if \<not> al 4096 then reply node msg MSG_RESPONSE_ERR (lit ''out of memory'') 13
                  else (case chain_buffer al (drop start (blocks (n_chain node)))
                               (BLOCKCHAIN_CSV_HEADER @ [CHR 0x0A]) 4096 of
                          Buffer_bad_block \<Rightarrow> reply node msg MSG_RESPONSE_ERR (lit ''serialization failed'') 20
                        | Buffer_oom \<Rightarrow> reply node msg MSG_RESPONSE_ERR (lit ''out of memory'') 13
                        | Buffer buf \<Rightarrow>
                            reply node msg MSG_RESPONSE_OK (Some buf) (length buf mod 2 ^ 32)))
            in if 0 < msg_len msg \<and> payload_str \<noteq> []
               then (case scan_index_query payload_str of
                       Some i \<Rightarrow>
                         (case blockchain_get_by_index (Some (n_chain node)) i of
                            None \<Rightarrow> reply node msg MSG_RESPONSE_ERR (lit ''block not found'') 15
                          | Some start \<Rightarrow> answer start)
                     | None \<Rightarrow>
                         (case scan_hash_query payload_str of
                            Some h \<Rightarrow>
                              (case blockchain_get_by_hash al (Some (n_chain node)) (Some h) of
                                 None \<Rightarrow> reply node msg MSG_RESPONSE_ERR (lit ''block not found'') 15
                               | Some start \<Rightarrow> answer start)
                          | None \<Rightarrow> reply node msg MSG_RESPONSE_ERR (lit ''invalid query'') 13))
               else answer 0))"

section \<open>Synchronisation\<close>

text \<open>The loop of \<open>handle_sync_request\<close>: a block that cannot be printed is skipped.\<close>

fun sync_buffer :: "alloc \<Rightarrow> block_t list \<Rightarrow> string \<Rightarrow> nat \<Rightarrow> string option" where
  "sync_buffer al [] buf cap = Some buf"
| "sync_buffer al (b # bs) buf cap =
     (case block_to_csv al (Some b) of
        Inl e \<Rightarrow> sync_buffer al bs buf cap
      | Inr line \<Rightarrow>
          (case grow_buffer al (length buf + length line + 2) cap of
             None \<Rightarrow> None
           | Some cap' \<Rightarrow> sync_buffer al bs (buf @ line @ [CHR 0x0A]) cap'))"

definition handle_sync_request :: "alloc \<Rightarrow> node_t \<Rightarrow> queue_message_t \<Rightarrow> node_output list" where
  "handle_sync_request al node msg =
     (if \<not> al (msg_len msg + 1) then reply node msg MSG_RESPONSE_ERR (lit ''out of memory'') 13
      else (let from_index = (case scan_llu (payload_string msg) of None \<Rightarrow> 0 | Some i \<Rightarrow> i)
            in if \<not> al 4096 then reply node msg MSG_RESPONSE_ERR (lit ''out of memory'') 13
               else (case sync_buffer al (drop (unat from_index) (blocks (n_chain node))) [] 4096 of
                       None \<Rightarrow> []
                     | Some buf \<Rightarrow> reply node msg MSG_SYNC_RESPONSE (Some buf) (length buf mod 2 ^ 32))))"

text \<open>
  The first critical section of \<open>handle_block_commit\<close>: the next block is checked and appended, an
  older one is ignored, and for a later one the height is returned from which to synchronise.
\<close>

definition commit_section :: "alloc \<Rightarrow> node_t \<Rightarrow> block_t \<Rightarrow> node_t \<times> u64 option" where
  "commit_section al node incoming =
     (let expected_index = (of_nat (chain_count (n_chain node)) :: u64) in
      if index incoming = expected_index
      then (let last = (if 0 < chain_count (n_chain node)
                        then map_option (\<lambda>i. blocks (n_chain node) ! i)
                               (blockchain_get_by_index (Some (n_chain node)) (of_nat (chain_count (n_chain node) - 1)))
                        else None);
                valid = (validate_block_structure al (Some incoming) = PROJECT_OK
                         \<and> validate_block_merkle_root al (Some incoming) = PROJECT_OK
                         \<and> (case last of
                               None \<Rightarrow> index incoming = 0
                             | Some l \<Rightarrow> validate_block_link al (Some l) (Some incoming) = PROJECT_OK))
            in if valid
               then (node\<lparr>n_chain := the (snd (blockchain_append al (Some (n_chain node)) (Some incoming)))\<rparr>, None)
               else (node, None))
      else if index incoming < expected_index then (node, None)
      else (node, Some expected_index))"

text \<open>\<open>strtok_r\<close> with a newline: the non-empty lines.\<close>

function strtok_lines :: "string \<Rightarrow> string list" where
  "strtok_lines s =
     (let t = dropWhile (\<lambda>c. c = CHR 0x0A) s in
      if t = [] then [] else takeWhile (\<lambda>c. c \<noteq> CHR 0x0A) t # strtok_lines (dropWhile (\<lambda>c. c \<noteq> CHR 0x0A) t))"
  by pat_completeness auto
termination
proof (relation "measure length")
  fix s t :: string
  assume t: "t = dropWhile (\<lambda>c. c = CHR 0x0A) s" "t \<noteq> []"
  have "hd t \<noteq> CHR 0x0A" using t hd_dropWhile [of "\<lambda>c. c = CHR 0x0A" s] by simp
  then obtain c r where cr: "t = c # r" "c \<noteq> CHR 0x0A" using t(2) by (metis list.collapse)
  then have "length (dropWhile (\<lambda>c. c \<noteq> CHR 0x0A) t) \<le> length r" by (simp add: length_dropWhile_le)
  also have "\<dots> < length s" using cr t(1) length_dropWhile_le [of "\<lambda>c. c = CHR 0x0A" s] by simp
  finally show "(dropWhile (\<lambda>c. c \<noteq> CHR 0x0A) t, s) \<in> measure length" by simp
qed simp

declare strtok_lines.simps [simp del]

text \<open>One line of a synchronisation response.\<close>

definition sync_line :: "alloc \<Rightarrow> node_t \<Rightarrow> string \<Rightarrow> node_t" where
  "sync_line al node line =
     (case block_from_csv al (Some line) of
        Inl e \<Rightarrow> node
      | Inr synced \<Rightarrow>
          (let sync_valid = (validate_block_structure al (Some synced) = PROJECT_OK
                             \<and> validate_block_merkle_root al (Some synced) = PROJECT_OK
                             \<and> (case last_block (n_chain node) of
                                   None \<Rightarrow> True
                                 | Some l \<Rightarrow> validate_block_link al (Some l) (Some synced) = PROJECT_OK))
           in if sync_valid
              then node\<lparr>n_chain := the (snd (blockchain_append al (Some (n_chain node)) (Some synced)))\<rparr>
              else node))"

text \<open>The second critical section of \<open>handle_block_commit\<close>, for a reply that was received.\<close>

definition sync_section :: "alloc \<Rightarrow> node_t \<Rightarrow> message_header_t \<times> char list ptr \<Rightarrow> node_t" where
  "sync_section al node response =
     (case snd response of
        None \<Rightarrow> node
      | Some p \<Rightarrow>
          if \<not> al (unat (payload_len (fst response)) + 1) then node
          else foldl (sync_line al) node (strtok_lines (cstr (take (unat (payload_len (fst response))) p))))"

text \<open>
  The whole handler. The reply of the coordinator is an argument: what \<open>ipc_recv\<close> returns on the
  connection to it.
\<close>

definition handle_block_commit ::
  "alloc \<Rightarrow> net \<Rightarrow> (message_header_t \<times> char list ptr) option \<Rightarrow> node_t \<Rightarrow> queue_message_t \<Rightarrow>
   node_t \<times> node_output list" where
  "handle_block_commit al net response node msg =
     (if \<not> al (msg_len msg + 1) then (node, [])
      else (case block_from_csv al (Some (payload_string msg)) of
              Inl e \<Rightarrow> (node, [])
            | Inr incoming \<Rightarrow>
                (case commit_section al node incoming of
                   (node', None) \<Rightarrow> (node', [])
                 | (node', Some expected_index) \<Rightarrow>
                     (case ipc_build_socket_path (Some (n_runtime_dir node)) (Some NODE_SOCK_FORMAT) 0
                             MAX_SOCKET_PATH_LEN of
                        Inl e \<Rightarrow> (node', [])
                      | Inr coordinator_path \<Rightarrow>
                          (case ipc_connect (net coordinator_path) (Some coordinator_path) of
                             Inl e \<Rightarrow> (node', [])
                           | Inr fd \<Rightarrow>
                               ((case response of None \<Rightarrow> node' | Some r \<Rightarrow> sync_section al node' r),
                                send_to net node' NODE_SOCK_FORMAT 0 MSG_SYNC_REQUEST
                                  (fmt_u (unat expected_index))))))))"

section \<open>Dispatch\<close>

definition handle_message ::
  "alloc \<Rightarrow> net \<Rightarrow> (message_header_t \<times> char list ptr) option \<Rightarrow> node_t \<Rightarrow> queue_message_t \<Rightarrow>
   node_t \<times> node_output list" where
  "handle_message al net response node msg =
     (let type = msg_type (q_header msg) in
      if type = message_code MSG_BLOCK_PROPOSAL
      then (if n_coordinator node then handle_block_proposal al net node msg
            else (node, reply node msg MSG_RESPONSE_ERR (lit ''not coordinator'') 16))
      else if type = message_code MSG_QUERY_CHAIN then (node, handle_query_chain al node msg)
      else if type = message_code MSG_QUERY_HEIGHT then (node, handle_query_height node msg)
      else if type = message_code MSG_QUERY_BLOCK then (node, handle_query_block al node msg)
      else if type = message_code MSG_SYNC_REQUEST then (node, handle_sync_request al node msg)
      else if type = message_code MSG_BLOCK_COMMIT then handle_block_commit al net response node msg
      else (node, reply node msg MSG_RESPONSE_OK None 0))"

section \<open>Start and stop\<close>

text \<open>
  The initial state file: \<open>None\<close> when it does not exist, otherwise what opening it gives.
\<close>

definition node_init ::
  "alloc \<Rightarrow> endpoint_env \<Rightarrow> rfile option option \<Rightarrow> int \<Rightarrow> string ptr \<Rightarrow> project_error_t + node_t" where
  "node_init al env initial_state num dir_ptr =
     (case dir_ptr of
        None \<Rightarrow> Inl ERR_INVALID_ARGUMENT
      | Some dir \<Rightarrow>
          (case ipc_build_socket_path (Some dir) (Some NODE_SOCK_FORMAT) num MAX_SOCKET_PATH_LEN of
             Inl e \<Rightarrow> Inl e
           | Inr path \<Rightarrow>
               (case ipc_server_create env (Some path) of
                  Inl e \<Rightarrow> Inl e
                | Inr fd \<Rightarrow>
                    (let genesis_path = dir @ ''/initial_state.csv'';
                         finish = (\<lambda>chain.
                           Inr \<lparr>n_id = num, n_coordinator = (num = 0), n_runtime_dir = take 255 dir,
                                n_sock_path = path, n_server_fd = fd, n_chain = chain,
                                n_queue = the (snd (node_queue_init (Some (ring_q queue_start)))),
                                n_running = True\<rparr>)
                     in if 300 \<le> length genesis_path then Inl ERR_INVALID_ARGUMENT
                        else (case initial_state of
                                None \<Rightarrow> finish (the (snd (blockchain_init (Some chain_zero))))
                              | Some file \<Rightarrow>
                                  (case blockchain_load_csv al file (snd (blockchain_init (Some chain_zero)))
                                          (Some genesis_path) of
                                     (rc, chain) \<Rightarrow>
                                       if rc \<noteq> PROJECT_OK then Inl rc else finish (the chain)))))))"

definition node_stop :: "node_t ptr \<Rightarrow> node_t ptr" where
  "node_stop node =
     map_option (\<lambda>n. n\<lparr>n_running := False, n_queue := the (node_queue_shutdown (Some (n_queue n)))\<rparr>) node"

section \<open>Keepers of a chain\<close>

text \<open>
  The contract of everything that may change a chain: an event keeps the invariant, only appends,
  and does not make a good chain bad. It is interpreted for the lines of a synchronisation response,
  for the commit section and for the whole dispatch of a node.
\<close>

locale chain_keeper =
  fixes inv :: "'s \<Rightarrow> bool" and chain_of :: "'s \<Rightarrow> 'b list" and good :: "'b list \<Rightarrow> bool"
    and admissible :: "'e \<Rightarrow> bool" and accept :: "'s \<Rightarrow> 'e \<Rightarrow> 's"
  assumes keeps_inv: "inv s \<Longrightarrow> admissible e \<Longrightarrow> inv (accept s e)"
    and appends: "inv s \<Longrightarrow> admissible e \<Longrightarrow> prefix (chain_of s) (chain_of (accept s e))"
    and keeps_good: "inv s \<Longrightarrow> admissible e \<Longrightarrow> good (chain_of s) \<Longrightarrow> good (chain_of (accept s e))"
begin

lemma run_keeps:
  "inv s \<Longrightarrow> list_all admissible es \<Longrightarrow>
     inv (foldl accept s es) \<and> prefix (chain_of s) (chain_of (foldl accept s es))
     \<and> (good (chain_of s) \<longrightarrow> good (chain_of (foldl accept s es)))"
proof (induction es arbitrary: s)
  case (Cons e es)
  then have e: "inv (accept s e)" "prefix (chain_of s) (chain_of (accept s e))"
    "good (chain_of s) \<longrightarrow> good (chain_of (accept s e))"
    using keeps_inv appends keeps_good by simp_all
  with Cons.IH [OF e(1)] Cons.prems show ?case by (auto intro: prefix_order.trans)
qed simp

text \<open>What was once at a position stays there.\<close>

lemma run_stable:
  assumes "inv s" "list_all admissible es" "i < length (chain_of s)"
  shows "chain_of (foldl accept s es) ! i = chain_of s ! i"
  using run_keeps [OF assms(1,2)] assms(3) by (auto simp: prefix_def nth_append)

end

abbreviation node_chain :: "node_t \<Rightarrow> block_t list" where
  "node_chain n \<equiv> blocks (n_chain n)"

definition node_inv :: "node_t \<Rightarrow> bool" where
  "node_inv n \<longleftrightarrow> chain_wf (n_chain n) \<and> chain_fits (n_chain n)"

text \<open>The relation between the states before and after a handler.\<close>

definition chain_kept :: "node_t \<Rightarrow> node_t \<Rightarrow> bool" where
  "chain_kept n n' \<longleftrightarrow>
     (node_inv n \<longrightarrow> node_inv n') \<and> prefix (node_chain n) (node_chain n')
     \<and> (chain_valid (node_chain n) \<longrightarrow> chain_valid (node_chain n'))
     \<and> n_id n' = n_id n \<and> n_coordinator n' = n_coordinator n \<and> n_runtime_dir n' = n_runtime_dir n"

lemma chain_kept_refl [simp, keeps_chain]: "chain_kept n n"
  by (simp add: chain_kept_def)

lemma chain_kept_trans: "chain_kept a b \<Longrightarrow> chain_kept b c \<Longrightarrow> chain_kept a c"
  by (auto simp: chain_kept_def intro: prefix_order.trans)

lemma append_kept:
  assumes "alloc_fits al" "chain_valid (node_chain n) \<Longrightarrow> block_ok b \<and> link_ok (last (node_chain n)) b"
    "blockchain_append al (Some (n_chain n)) (Some b) = (rc, c)"
  shows "chain_kept n (n\<lparr>n_chain := the c\<rparr>)"
  using assms(3)
proof (cases rule: blockchain_append_cases)
  case (ok c')
  have "chain_fits (n_chain n) \<longrightarrow> chain_fits c'"
    using blockchain_append_fits [OF assms(1), of "n_chain n"] assms(3) ok(2) by blast
  moreover have "chain_valid (node_chain n) \<longrightarrow> chain_valid (node_chain n @ [b])"
    using assms(2) by (auto simp: chain_valid_snoc chain_valid_def [of "node_chain n"])
  ultimately show ?thesis using ok by (auto simp: chain_kept_def node_inv_def)
next
  case (error c')
  have "chain_fits (n_chain n) \<longrightarrow> chain_fits c'"
    using blockchain_append_fits [OF assms(1), of "n_chain n"] assms(3) error(2) by blast
  with error show ?thesis by (auto simp: chain_kept_def node_inv_def)
qed

lemma last_block_valid:
  "chain_valid (blocks c) \<Longrightarrow> last_block c = Some (last (blocks c))"
  by (auto simp: last_block_def chain_valid_def last_conv_nth)

lemma proposal_kept [keeps_chain]:
  assumes "alloc_fits al"
  shows "chain_kept n (fst (handle_block_proposal al net n msg))"
proof -
  have "chain_kept n (n\<lparr>n_chain := the c\<rparr>)"
    if "validate_block_merkle_root al (Some b) = PROJECT_OK"
      "case last_block (n_chain n) of None \<Rightarrow> index b = 0
       | Some l \<Rightarrow> validate_block_link al (Some l) (Some b) = PROJECT_OK"
      "blockchain_append al (Some (n_chain n)) (Some b) = (rc, c)" for b rc c
    using that validate_block_link_OK
    by (intro append_kept [OF assms]) (auto simp: last_block_valid)
  then show ?thesis
    by (auto simp: handle_block_proposal_def Let_def split: sum.splits prod.splits)
qed

lemma sync_line_kept [keeps_chain]:
  assumes "alloc_fits al"
  shows "chain_kept n (sync_line al n line)"
proof -
  have "chain_kept n (n\<lparr>n_chain := the (snd (blockchain_append al (Some (n_chain n)) (Some b)))\<rparr>)"
    if "case last_block (n_chain n) of None \<Rightarrow> True
        | Some l \<Rightarrow> validate_block_link al (Some l) (Some b) = PROJECT_OK" for b
    using that validate_block_link_OK
    by (intro append_kept [OF assms, of _ _ "fst (blockchain_append al (Some (n_chain n)) (Some b))"])
      (auto simp: last_block_valid)
  then show ?thesis by (auto simp: sync_line_def Let_def split: sum.splits)
qed

lemma commit_section_kept [keeps_chain]:
  assumes "alloc_fits al" "node_inv n"
  shows "chain_kept n (fst (commit_section al n b))"
proof -
  let ?c = "n_chain n"
  have "block_ok b \<and> link_ok (last (blocks ?c)) b"
    if v: "chain_valid (blocks ?c)" and
      l: "case (if 0 < chain_count ?c then map_option (\<lambda>i. blocks ?c ! i)
                  (blockchain_get_by_index (Some ?c) (of_nat (chain_count ?c - 1))) else None) of
            None \<Rightarrow> index b = 0 | Some l \<Rightarrow> validate_block_link al (Some l) (Some b) = PROJECT_OK"
  proof -
    have ne: "blocks ?c \<noteq> []" using v by (simp add: chain_valid_def)
    have "blockchain_get_by_index (Some ?c) (of_nat (chain_count ?c - 1)) = Some (chain_count ?c - 1)"
      using v ne chain_fits_count [of ?c] assms(2)
      by (intro get_by_index_valid) (auto simp: node_inv_def)
    with l ne have "validate_block_link al (Some (last (blocks ?c))) (Some b) = PROJECT_OK"
      by (simp add: last_conv_nth)
    then show ?thesis using validate_block_link_OK by blast
  qed
  then have "chain_kept n (n\<lparr>n_chain := the (snd (blockchain_append al (Some ?c) (Some b)))\<rparr>)"
    if "case (if 0 < chain_count ?c then map_option (\<lambda>i. blocks ?c ! i)
                  (blockchain_get_by_index (Some ?c) (of_nat (chain_count ?c - 1))) else None) of
            None \<Rightarrow> index b = 0 | Some l \<Rightarrow> validate_block_link al (Some l) (Some b) = PROJECT_OK"
    using that
    by (intro append_kept [OF assms(1), of _ _ "fst (blockchain_append al (Some ?c) (Some b))"]) auto
  then show ?thesis by (auto simp: commit_section_def Let_def)
qed

lemma foldl_sync_kept: "alloc_fits al \<Longrightarrow> chain_kept n (foldl (sync_line al) n ls)"
  by (induction ls arbitrary: n) (auto intro: chain_kept_trans sync_line_kept)

lemma sync_section_kept [keeps_chain]: "alloc_fits al \<Longrightarrow> chain_kept n (sync_section al n r)"
  by (auto simp: sync_section_def foldl_sync_kept split: option.splits)

lemma commit_kept [keeps_chain]:
  assumes "alloc_fits al" "node_inv n"
  shows "chain_kept n (fst (handle_block_commit al net r n msg))"
proof -
  have "chain_kept n n'" "chain_kept n (sync_section al n' r')"
    if "commit_section al n b = (n', x)" for b n' x r'
    using that commit_section_kept [OF assms, of b] sync_section_kept [OF assms(1), of n' r']
      chain_kept_trans [of n n'] by simp_all
  then show ?thesis
    by (auto simp: handle_block_commit_def split: sum.splits prod.splits option.splits)
qed

lemma handle_message_kept [keeps_chain]:
  "alloc_fits al \<Longrightarrow> node_inv n \<Longrightarrow> chain_kept n (fst (handle_message al net r n msg))"
  by (simp add: handle_message_def Let_def proposal_kept commit_kept del: message_code.simps)

interpretation sync_keeper: chain_keeper node_inv node_chain chain_valid "\<lambda>(al, line). alloc_fits al"
  "\<lambda>n (al, line). sync_line al n line"
  by unfold_locales (use sync_line_kept in \<open>fastforce simp: chain_kept_def\<close>)+

interpretation commit_keeper: chain_keeper node_inv node_chain chain_valid "\<lambda>(al, b). alloc_fits al"
  "\<lambda>n (al, b). fst (commit_section al n b)"
  by unfold_locales (use commit_section_kept in \<open>fastforce simp: chain_kept_def\<close>)+

interpretation node_keeper: chain_keeper node_inv node_chain chain_valid "\<lambda>(al, net, r, msg). alloc_fits al"
  "\<lambda>n (al, net, r, msg). fst (handle_message al net r n msg)"
  by unfold_locales (use handle_message_kept in \<open>fastforce simp: chain_kept_def\<close>)+

section \<open>What the handlers answer\<close>

lemma grow_buffer_total:
  "alloc_total al \<Longrightarrow> 0 < cap \<Longrightarrow> \<exists>cap'. grow_buffer al need cap = Some cap' \<and> need \<le> cap' \<and> 0 < cap'"
proof (induction al need cap rule: grow_buffer.induct)
  case (1 al need cap)
  have "al (cap * 2)" using 1(2) by (rule alloc_totalD)
  with 1 show ?case by (subst grow_buffer.simps) auto
qed

abbreviation csv_lines :: "block_t list \<Rightarrow> string" where
  "csv_lines bs \<equiv> concat (map (\<lambda>b. csv_line b @ [CHR 0x0A]) bs)"

lemma chain_buffer_total:
  "alloc_total al \<Longrightarrow> 0 < cap \<Longrightarrow> list_all block_printable bs \<Longrightarrow>
     chain_buffer al bs buf cap = Buffer (buf @ csv_lines bs)"
proof (induction bs arbitrary: buf cap)
  case (Cons b bs)
  obtain cap' where "grow_buffer al (length buf + length (csv_line b) + 2) cap = Some cap'" "0 < cap'"
    using grow_buffer_total Cons.prems(1,2) by blast
  moreover have "block_to_csv al (Some b) = Inr (csv_line b)"
    using Cons.prems by (simp add: block_to_csv_Inr alloc_totalD)
  ultimately show ?case using Cons by simp
qed simp

lemma sync_buffer_total:
  "alloc_total al \<Longrightarrow> 0 < cap \<Longrightarrow> list_all block_printable bs \<Longrightarrow>
     sync_buffer al bs buf cap = Some (buf @ csv_lines bs)"
proof (induction bs arbitrary: buf cap)
  case (Cons b bs)
  obtain cap' where "grow_buffer al (length buf + length (csv_line b) + 2) cap = Some cap'" "0 < cap'"
    using grow_buffer_total Cons.prems(1,2) by blast
  moreover have "block_to_csv al (Some b) = Inr (csv_line b)"
    using Cons.prems by (simp add: block_to_csv_Inr alloc_totalD)
  ultimately show ?case using Cons by simp
qed simp

text \<open>Whatever the allocator does, a buffer that is sent consists of printed blocks of the chain.\<close>

lemma sync_buffer_cases:
  "sync_buffer al bs buf cap = Some out \<Longrightarrow>
     \<exists>cs. subseq cs bs \<and> list_all block_printable cs \<and> out = buf @ csv_lines cs"
proof (induction bs arbitrary: buf cap)
  case (Cons b bs)
  show ?case
  proof (cases "block_to_csv al (Some b)")
    case (Inl e)
    with Cons.prems have "sync_buffer al bs buf cap = Some out" by simp
    then show ?thesis using Cons.IH by (blast intro: subseq_Cons')
  next
    case (Inr line)
    with Cons.prems obtain cap' where "sync_buffer al bs (buf @ line @ [CHR 0x0A]) cap' = Some out"
      by (auto split: option.splits)
    then obtain cs where "subseq cs bs" "list_all block_printable cs" "out = (buf @ line @ [CHR 0x0A]) @ csv_lines cs"
      using Cons.IH by blast
    moreover have "block_printable b" "line = csv_line b" using Inr by (simp_all add: block_to_csv_Inr)
    ultimately show ?thesis by (intro exI [of _ "b # cs"]) auto
  qed
qed auto

lemma strtok_lines_Cons:
  assumes "l \<noteq> []" "CHR 0x0A \<notin> set l"
  shows "strtok_lines (l @ CHR 0x0A # r) = l # strtok_lines r"
proof -
  have d: "dropWhile (\<lambda>c. c = CHR 0x0A) (l @ CHR 0x0A # r) = l @ CHR 0x0A # r"
    using assms by (cases l) auto
  have t: "takeWhile (\<lambda>c. c \<noteq> CHR 0x0A) (l @ CHR 0x0A # r) = l" using assms(2) by simp
  have w: "dropWhile (\<lambda>c. c \<noteq> CHR 0x0A) (l @ CHR 0x0A # r) = CHR 0x0A # r"
    using assms(2) by (subst dropWhile_append2) auto
  have n: "strtok_lines (CHR 0x0A # r) = strtok_lines r"
    by (subst (1 2) strtok_lines.simps) simp
  show ?thesis using assms(1) by (subst strtok_lines.simps) (simp add: d t w n)
qed

lemma csv_line_nonempty [simp]: "csv_line b \<noteq> []"
  by (simp add: csv_line_def)

lemma strtok_csv_lines: "list_all block_printable bs \<Longrightarrow> strtok_lines (csv_lines bs) = map csv_line bs"
proof (induction bs)
  case Nil
  show ?case by (subst strtok_lines.simps) simp
next
  case (Cons b bs)
  then show ?case using strtok_lines_Cons [of "csv_line b" "csv_lines bs"] csv_line_no_newline [of b] by simp
qed

text \<open>The reply to a request for synchronisation.\<close>

lemma handle_sync_request_total:
  assumes "alloc_total al" "list_all block_printable (node_chain n)"
    "scan_llu (payload_string msg) = Some i"
  shows "handle_sync_request al n msg =
    reply n msg MSG_SYNC_RESPONSE (Some (csv_lines (drop (unat i) (node_chain n))))
      (length (csv_lines (drop (unat i) (node_chain n))) mod 2 ^ 32)"
proof -
  have "list_all block_printable (drop (unat i) (node_chain n))"
    using assms(2) by (auto simp: list_all_iff dest: in_set_dropD)
  then show ?thesis
    using assms by (simp add: handle_sync_request_def alloc_totalD sync_buffer_total Let_def)
qed

text \<open>A block that links to the last one is appended when its line arrives.\<close>

lemma blockchain_append_ok_blocks:
  assumes "alloc_total al" "block_wf b"
  shows "blocks (the (snd (blockchain_append al (Some c) (Some b)))) = blocks c @ [b]"
proof -
  obtain rc r where "blockchain_append al (Some c) (Some b) = (rc, r)" by fastforce
  note app = this
  from app show ?thesis
    by (cases rule: blockchain_append_cases) (use app blockchain_append_total [OF assms, of c] in auto)
qed

lemma sync_line_appends:
  assumes "alloc_total al" "block_printable b" "separable (txs b)" "node_chain n \<noteq> []"
    "block_ok (last (node_chain n))" "block_ok b" "link_ok (last (node_chain n)) b"
  shows "node_chain (sync_line al n (csv_line b)) = node_chain n @ [b]"
proof -
  have "block_from_csv al (Some (csv_line b)) = Inr b"
    using block_from_csv_line [OF assms(1-3), of "[]"] by simp
  moreover have "last_block (n_chain n) = Some (last (node_chain n))"
    using assms(4) by (simp add: last_block_def last_conv_nth)
  moreover have "validate_block_structure al (Some b) = PROJECT_OK"
    using assms(1,6) validate_block_structure_total by (simp add: block_ok_def alloc_total_def)
  ultimately show ?thesis
    using assms validate_block_merkle_root_total validate_block_link_total
    by (simp add: sync_line_def blockchain_append_ok_blocks block_printable_wf)
qed

text \<open>A node that is behind catches up: the lines it misses are appended one after the other.\<close>

lemma sync_catches_up:
  assumes "alloc_total al" "chain_valid (node_chain n @ bs)" "chain_valid (node_chain n)"
    "list_all (\<lambda>b. block_printable b \<and> separable (txs b)) bs"
  shows "node_chain (foldl (sync_line al) n (map csv_line bs)) = node_chain n @ bs"
  using assms(2-4)
proof (induction bs arbitrary: n)
  case (Cons b bs)
  let ?n = "sync_line al n (csv_line b)"
  have ne: "node_chain n \<noteq> []" using Cons.prems(2) by (simp add: chain_valid_def)
  have "chain_valid (take (Suc (length (node_chain n))) (node_chain n @ b # bs))"
    using Cons.prems(1) by (rule chain_valid_take) simp
  then have v: "chain_valid (node_chain n @ [b])" by simp
  then have "block_ok b" "link_ok (last (node_chain n)) b" "block_ok (last (node_chain n))"
    using ne chain_valid_snoc [OF ne] by (auto simp: chain_valid_def list_all_iff)
  then have "node_chain ?n = node_chain n @ [b]"
    using assms(1) Cons.prems(3) ne by (intro sync_line_appends) auto
  with Cons v show ?case by simp
qed simp

section \<open>What is sent\<close>

lemma in_reply:
  "x \<in> set (reply n msg type p len) \<Longrightarrow>
   \<exists>m. x = Reply (q_client_fd msg) m \<and> msg_type (fst m) = message_code type
       \<and> snd m = (if 0 < len then take len (the p) else [])"
  by (auto simp: reply_def ipc_message_def split: if_splits)

lemma in_send_to:
  "x \<in> set (send_to net n format num type line) \<Longrightarrow>
   \<exists>path m. x = Sent path m \<and> msg_type (fst m) = message_code type \<and> snd m = line"
  by (auto simp: send_to_def ipc_message_def split: sum.splits if_splits)

lemma in_broadcast:
  assumes "x \<in> set (broadcast_commit al net n b)"
  shows "\<exists>path m. x = Sent path m \<and> msg_type (fst m) = message_code MSG_BLOCK_COMMIT
           \<and> snd m = csv_line b \<and> block_printable b"
proof -
  from assms obtain line where line: "block_to_csv al (Some b) = Inr line"
    by (cases "block_to_csv al (Some b)") (auto simp: broadcast_commit_def)
  with assms obtain format num where "x \<in> set (send_to net n format num MSG_BLOCK_COMMIT line)"
    by (auto simp: broadcast_commit_def split: if_splits)
  with line show ?thesis by (auto dest: in_send_to simp: block_to_csv_Inr)
qed

lemma message_code_inj: "message_code a = message_code b \<longleftrightarrow> a = b"
  by (cases a; cases b) simp_all

text \<open>
  The outcome of a proposal: either the block that was proposed fits the chain, is appended,
  broadcast and confirmed, or the chain stays and one refusal is sent.
\<close>

definition fits_next :: "block_t list \<Rightarrow> block_t \<Rightarrow> bool" where
  "fits_next bs b \<longleftrightarrow> block_ok b \<and> (if bs = [] then index b = 0 else link_ok (last bs) b)"

lemma last_block_cases:
  "(case last_block c of None \<Rightarrow> index b = 0 | Some l \<Rightarrow> validate_block_link al (Some l) (Some b) = PROJECT_OK) \<Longrightarrow>
   block_ok b \<Longrightarrow> fits_next (blocks c) b"
  using validate_block_link_OK [of al "last (blocks c)" b]
  by (auto simp: last_block_def fits_next_def last_conv_nth split: if_splits)

lemma proposal_parsed:
  assumes "q_payload msg = Some y" "msg_len msg \<noteq> 0" "al (msg_len msg + 1)"
    "block_from_csv al (Some (payload_string msg)) = Inr b"
    "blockchain_append al (Some (n_chain n)) (Some b) = (rc, c)"
  shows "handle_block_proposal al net n msg =
    (if validate_block_structure al (Some b) = PROJECT_OK \<and> validate_block_merkle_root al (Some b) = PROJECT_OK
        \<and> (case last_block (n_chain n) of None \<Rightarrow> index b = 0
            | Some l \<Rightarrow> validate_block_link al (Some l) (Some b) = PROJECT_OK)
     then (let n' = n\<lparr>n_chain := the c\<rparr> in
           if rc = PROJECT_OK
           then (n', broadcast_commit al net n' (node_chain n' ! (chain_count (n_chain n') - 1))
                     @ reply n' msg MSG_RESPONSE_OK None 0)
           else (n', reply n' msg MSG_BLOCK_REJECT (lit ''append failed'') 13))
     else (n, reply n msg MSG_BLOCK_REJECT (lit ''invalid proposal'') 16))"
  using assms by (simp add: handle_block_proposal_def Let_def)

lemma proposal_outcome:
  assumes "handle_block_proposal al net n msg = (n', outs)"
  obtains (accepted) b where "block_from_csv al (Some (payload_string msg)) = Inr b"
      "fits_next (node_chain n) b" "node_chain n' = node_chain n @ [b]"
      "outs = broadcast_commit al net n' b @ reply n' msg MSG_RESPONSE_OK None 0"
  | (refused) kind reason len where "node_chain n' = node_chain n"
      "outs = reply n' msg kind (lit reason) len" "kind \<in> {MSG_BLOCK_REJECT, MSG_RESPONSE_ERR}"
proof (cases "q_payload msg = None \<or> msg_len msg = 0 \<or> \<not> al (msg_len msg + 1)
    \<or> (\<exists>e. block_from_csv al (Some (payload_string msg)) = Inl e)")
  case True
  then show thesis
    using assms refused by (auto simp: handle_block_proposal_def split: if_splits)
next
  case False
  then obtain y b where y: "q_payload msg = Some y" "msg_len msg \<noteq> 0" "al (msg_len msg + 1)"
    and b: "block_from_csv al (Some (payload_string msg)) = Inr b"
    by (cases "block_from_csv al (Some (payload_string msg))") auto
  obtain rc c where app: "blockchain_append al (Some (n_chain n)) (Some b) = (rc, c)" by fastforce
  note h = proposal_parsed [OF y b app, of net, unfolded assms]
  let ?v = "validate_block_structure al (Some b) = PROJECT_OK \<and> validate_block_merkle_root al (Some b) = PROJECT_OK
      \<and> (case last_block (n_chain n) of None \<Rightarrow> index b = 0
          | Some l \<Rightarrow> validate_block_link al (Some l) (Some b) = PROJECT_OK)"
  show thesis
  proof (cases ?v)
    case v: False
    with h show thesis by (intro refused [of MSG_BLOCK_REJECT "''invalid proposal''" 16]) auto
  next
    case v: True
    then have fit: "fits_next (node_chain n) b"
      using last_block_cases validate_block_merkle_root_OK by blast
    from app show thesis
    proof (cases rule: blockchain_append_cases)
      case (ok c')
      with h v have "n' = n\<lparr>n_chain := c'\<rparr>"
        "outs = broadcast_commit al net n' b @ reply n' msg MSG_RESPONSE_OK None 0"
        by (simp_all add: Let_def)
      with ok b fit show thesis by (intro accepted [of b]) simp_all
    next
      case (error c')
      with h v show thesis by (intro refused [of MSG_BLOCK_REJECT "''append failed''" 13]) (auto simp: Let_def)
    qed
  qed
qed

text \<open>With enough memory a block that fits the chain is accepted.\<close>

lemma proposal_accepted:
  assumes "alloc_total al" "fits_next (node_chain n) b" "node_chain n \<noteq> []" "block_ok (last (node_chain n))"
    "block_printable b" "separable (txs b)" "payload_string msg = csv_line b" "msg_len msg \<noteq> 0"
  obtains n' where "handle_block_proposal al net n msg =
      (n', broadcast_commit al net n' b @ reply n' msg MSG_RESPONSE_OK None 0)"
    "node_chain n' = node_chain n @ [b]"
proof -
  have p: "block_from_csv al (Some (payload_string msg)) = Inr b"
    using block_from_csv_line [OF assms(1,5,6), of "[]"] assms(7) by simp
  have l: "last_block (n_chain n) = Some (last (node_chain n))"
    using assms(3) by (simp add: last_block_def last_conv_nth)
  have ok: "block_ok b" "link_ok (last (node_chain n)) b" using assms(2,3) by (simp_all add: fits_next_def)
  have v: "validate_block_structure al (Some b) = PROJECT_OK" "validate_block_merkle_root al (Some b) = PROJECT_OK"
    "validate_block_link al (Some (last (node_chain n))) (Some b) = PROJECT_OK"
    using validate_block_structure_total [OF alloc_totalD [OF assms(1)]]
      validate_block_merkle_root_total [OF assms(1)] validate_block_link_total [OF assms(1)] ok assms(4)
    by (simp_all add: block_ok_def)
  obtain y where y: "q_payload msg = Some y"
    using assms(7) csv_line_nonempty [of b] by (cases "q_payload msg") (simp_all add: payload_string_def cstr_def)
  obtain rc c where app: "blockchain_append al (Some (n_chain n)) (Some b) = (rc, c)" by fastforce
  have rc: "rc = PROJECT_OK"
    using blockchain_append_total [OF assms(1) block_printable_wf [OF assms(5)], of "n_chain n"] app by simp
  obtain c' where "c = Some c'" "blocks c' = node_chain n @ [b]"
    using app rc by (auto elim: blockchain_append_OK)
  then show thesis
    using that [of "n\<lparr>n_chain := c'\<rparr>"] proposal_parsed [OF y assms(8) alloc_totalD [OF assms(1)] p app, of net] l v rc
    by (simp add: Let_def)
qed

section \<open>Queries by index\<close>

lemma scan_llu_fmt: "i < 2 ^ 64 \<Longrightarrow> scan_llu (fmt_u i) = Some (of_nat i)"
  using strto_scan_fmt_u [of "[]" i] by (simp add: scan_llu_def strtoull_def)

lemma strto_scan_space: "strto_scan base (CHR '' '' # s) = strto_scan base s"
  by (simp add: strto_scan_def c_isspace_def code_def)

lemma scan_index_fmt: "i < 2 ^ 64 \<Longrightarrow> scan_index_query (''--index '' @ fmt_u i) = Some (of_nat i)"
  using strto_scan_fmt_u [of "[]" i]
  by (simp add: scan_index_query_def scan_option_def scan_llu_def strtoull_def strto_scan_space)

lemma file_text_lines: "file_text bs = (BLOCKCHAIN_CSV_HEADER @ [CHR 0x0A]) @ csv_lines bs"
  by (simp add: file_text_def)

lemma drop_printable: "list_all block_printable bs \<Longrightarrow> list_all block_printable (drop k bs)"
  by (auto simp: list_all_iff dest: in_set_dropD)

text \<open>A query for the chain from an index on.\<close>

lemma query_chain_from:
  assumes "alloc_total al" "list_all block_printable (node_chain n)" "chain_valid (node_chain n)"
    "chain_count (n_chain n) < 2 ^ 64" "i < chain_count (n_chain n)"
    "payload_string msg = ''--index '' @ fmt_u i" "msg_len msg \<noteq> 0"
  shows "handle_query_chain al n msg =
    reply n msg MSG_RESPONSE_OK (Some (file_text (drop i (node_chain n)))) (length (file_text (drop i (node_chain n))) mod 2 ^ 32)"
proof -
  have "scan_index_query (payload_string msg) = Some (of_nat i)"
    using assms(4,5) scan_index_fmt [of i] assms(6) by simp
  moreover have "blockchain_get_by_index (Some (n_chain n)) (of_nat i) = Some i"
    using get_by_index_valid [OF assms(3-5)] .
  moreover have "payload_string msg \<noteq> []" using assms(6) by simp
  moreover have "chain_buffer al (drop i (node_chain n)) (BLOCKCHAIN_CSV_HEADER @ [CHR 0x0A]) 4096 =
      Buffer (file_text (drop i (node_chain n)))"
    using chain_buffer_total [OF assms(1) _ drop_printable [OF assms(2)]] by (simp add: file_text_lines)
  moreover have "al (msg_len msg + 1)" "al 4096" using assms(1) by (simp_all add: alloc_totalD)
  ultimately show ?thesis
    using assms(7) by (simp add: handle_query_chain_def Let_def)
qed

lemma query_chain_all:
  assumes "alloc_total al" "list_all block_printable (node_chain n)" "msg_len msg = 0"
  shows "handle_query_chain al n msg =
    reply n msg MSG_RESPONSE_OK (Some (file_text (node_chain n))) (length (file_text (node_chain n)) mod 2 ^ 32)"
  using chain_buffer_total [OF assms(1) _ assms(2)] assms(1,3)
  by (simp add: handle_query_chain_def Let_def alloc_totalD file_text_lines)

lemma reply_fits:
  "0 < len \<Longrightarrow> len \<le> MAX_PAYLOAD_SIZE \<Longrightarrow> reply n msg kind (Some p) len =
     [Reply (q_client_fd msg) (\<lparr>magic = PROTOCOL_MAGIC, version = PROTOCOL_VERSION, msg_type = message_code kind,
        sender_id = of_int (n_id n), payload_len = of_nat len\<rparr>, take len p)]"
  by (simp add: reply_def ipc_message_def)

lemma reply_oversized: "MAX_PAYLOAD_SIZE < len \<Longrightarrow> reply n msg kind p len = []"
  by (simp add: reply_def ipc_message_def)

section \<open>A small node\<close>

definition example_node :: "int \<Rightarrow> block_t list \<Rightarrow> node_t" where
  "example_node num bs =
     \<lparr>n_id = num, n_coordinator = (num = 0), n_runtime_dir = ''/tmp/x'', n_sock_path = ''/tmp/x/node.sock'',
      n_server_fd = 3, n_chain = \<lparr>blocks = bs, capacity = 4\<rparr>, n_queue = ring_q queue_start, n_running = True\<rparr>"

definition example_message :: "message_type_t \<Rightarrow> string \<Rightarrow> queue_message_t" where
  "example_message kind payload =
     \<lparr>q_header = \<lparr>magic = PROTOCOL_MAGIC, version = PROTOCOL_VERSION, msg_type = message_code kind, sender_id = 0,
                  payload_len = of_nat (length payload)\<rparr>,
      q_payload = payload_ptr payload, q_client_fd = 9\<rparr>"

definition example_net :: net where
  "example_net path =
     \<lparr>env_unlink = UNLINKED, env_stat_ok = False, env_socket = 4, env_bind = BOUND, env_listen = True,
      env_connect = (path = ''/tmp/x/node_1.sock'')\<rparr>"

lemma example_node_fields [simp]:
  "node_chain (example_node num bs) = bs" "n_id (example_node num bs) = num"
  "n_coordinator (example_node num bs) \<longleftrightarrow> num = 0" "chain_count (n_chain (example_node num bs)) = length bs"
  by (simp_all add: example_node_def)

lemma example_node_inv:
  "node_inv (example_node num [example_genesis])" "node_inv (example_node num [example_genesis, example_block])"
  using example_wf by (simp_all add: node_inv_def example_node_def chain_wf_def chain_fits_def)

lemma example_message_string:
  "is_cstring payload \<Longrightarrow> length payload < 2 ^ 32 \<Longrightarrow> payload_string (example_message kind payload) = payload"
  by (simp add: payload_string_def example_message_def payload_ptr_def unat_of_nat)

lemma example_message_len: "length payload < 2 ^ 32 \<Longrightarrow> msg_len (example_message kind payload) = length payload"
  by (simp add: example_message_def unat_of_nat)

lemma csv_line_short: "block_printable b \<Longrightarrow> length (csv_line b) < 2 ^ 32"
  using length_csv_line_le [of b] by simp

section \<open>Properties\<close>

text \<open>
  C2. Whatever messages a node handles, in any order and with any content, with any failing
  allocations within the address space and any reply to its synchronisation requests: its chain is
  only appended to, a valid chain stays valid, the invariant of the container is kept, and a block
  once at a position stays there.
\<close>

theorem node_chain_only_grows:
  assumes "node_inv n" "list_all (\<lambda>(al, net, r, msg). alloc_fits al) events"
    "n' = foldl (\<lambda>n (al, net, r, msg). fst (handle_message al net r n msg)) n events"
  shows "node_inv n' \<and> prefix (node_chain n) (node_chain n')
    \<and> (chain_valid (node_chain n) \<longrightarrow> chain_valid (node_chain n'))
    \<and> (i < length (node_chain n) \<longrightarrow> node_chain n' ! i = node_chain n ! i)"
  using node_keeper.run_keeps [OF assms(1,2)] node_keeper.run_stable [OF assms(1,2)] assms(3) by blast

theorem node_chain_only_grows_witness:
  "chain_valid (node_chain (fst (handle_message alloc_64 example_net None (example_node 1 [example_genesis])
     (example_message MSG_BLOCK_COMMIT (csv_line example_block)))))"
  using node_chain_only_grows [OF example_node_inv(1) [of 1],
      of "[(alloc_64, example_net, None, example_message MSG_BLOCK_COMMIT (csv_line example_block))]"]
    example_chain_valid(1) by simp



text \<open>
  C17. A valid block proposed to the coordinator is accepted: with memory available, a printable
  block that is well-formed and links to the last block is appended, broadcast and confirmed.
\<close>

theorem valid_proposal_accepted:
  assumes "alloc_total al" "chain_valid (node_chain n)" "block_ok b" "link_ok (last (node_chain n)) b"
    "block_printable b" "separable (txs b)" "payload_string msg = csv_line b" "msg_len msg \<noteq> 0"
  shows "\<exists>n'. handle_block_proposal al net n msg =
            (n', broadcast_commit al net n' b @ reply n' msg MSG_RESPONSE_OK None 0)
          \<and> node_chain n' = node_chain n @ [b]"
proof -
  have "node_chain n \<noteq> []" "block_ok (last (node_chain n))"
    using assms(2) by (auto simp: chain_valid_def list_all_iff)
  moreover from this have "fits_next (node_chain n) b" using assms(3,4) by (simp add: fits_next_def)
  ultimately show ?thesis using assms proposal_accepted by metis
qed

theorem valid_proposal_accepted_witness:
  "\<exists>n' outs. handle_block_proposal no_oom example_net (example_node 0 [example_genesis])
     (example_message MSG_BLOCK_PROPOSAL (csv_line example_block)) = (n', outs)
   \<and> node_chain n' = [example_genesis, example_block]"
proof -
  let ?m = "example_message MSG_BLOCK_PROPOSAL (csv_line example_block)"
  have "payload_string ?m = csv_line example_block" "msg_len ?m \<noteq> 0"
    using csv_line_cstring example_printable csv_line_short csv_line_nonempty [of example_block]
      example_message_string [of "csv_line example_block"] example_message_len [of "csv_line example_block"]
    by auto
  then show ?thesis
    using valid_proposal_accepted [of no_oom "example_node 0 [example_genesis]" example_block ?m example_net]
      example_chain_valid example_block_ok example_printable by auto
qed

text \<open>
  C10. Recovery: a node whose chain is a prefix of the coordinator's valid chain asks for the blocks
  from its height on; if the answer fits into one message, handling it makes its chain equal to the
  coordinator's.
\<close>

theorem sync_recovers:
  assumes "alloc_total al" "chain_valid (node_chain c)" "chain_valid (node_chain f)"
    "node_chain c = node_chain f @ missing" "missing \<noteq> []"
    "list_all (\<lambda>b. block_printable b \<and> separable (txs b) \<and> block_cstrings b) (node_chain c)"
    "payload_string msg = fmt_u (length (node_chain f))" "length (node_chain f) < 2 ^ 64"
    "length (csv_lines missing) \<le> MAX_PAYLOAD_SIZE"
  shows "\<exists>fd h body. handle_sync_request al c msg = [Reply fd (h, body)]
    \<and> msg_type h = message_code MSG_SYNC_RESPONSE
    \<and> node_chain (sync_section al f (h, payload_ptr body)) = node_chain c"
proof -
  let ?lines = "csv_lines missing"
  have p: "list_all block_printable (node_chain c)" "list_all block_printable missing"
    "list_all (\<lambda>b. block_printable b \<and> separable (txs b)) missing" "list_all block_cstrings missing"
    using assms(4,6) by (auto simp: list_all_iff)
  have ne: "?lines \<noteq> []" using assms(5) by (cases missing) auto
  have "handle_sync_request al c msg = reply c msg MSG_SYNC_RESPONSE (Some ?lines) (length ?lines mod 2 ^ 32)"
    using handle_sync_request_total [OF assms(1) p(1)] scan_llu_fmt [OF assms(8)] assms(4,7,8)
    by (simp add: unat_of_nat_u64)
  moreover have "length ?lines mod 2 ^ 32 = length ?lines" using assms(9) by simp
  moreover have "reply c msg MSG_SYNC_RESPONSE (Some ?lines) (length ?lines) =
      [Reply (q_client_fd msg) (\<lparr>magic = PROTOCOL_MAGIC, version = PROTOCOL_VERSION,
         msg_type = message_code MSG_SYNC_RESPONSE, sender_id = of_int (n_id c), payload_len = of_nat (length ?lines)\<rparr>, ?lines)]"
    using reply_fits [of "length ?lines" c msg MSG_SYNC_RESPONSE ?lines] assms(9) ne by simp
  moreover have "is_cstring ?lines" using p(2,4) by (induction missing) (auto simp: csv_line_cstring)
  then have "node_chain (sync_section al f (h, payload_ptr ?lines)) = node_chain c"
    if "unat (payload_len h) = length ?lines" for h
    using that sync_catches_up [OF assms(1) _ assms(3) p(3)] assms(1,2,4) ne strtok_csv_lines [OF p(2)]
    by (simp add: sync_section_def payload_ptr_def alloc_totalD)
  moreover have "unat (of_nat (length ?lines) :: u32) = length ?lines" using assms(9) by (simp add: unat_of_nat)
  ultimately show ?thesis by simp
qed

theorem sync_recovers_witness:
  "\<exists>fd h body. handle_sync_request no_oom (example_node 0 [example_genesis, example_block])
       (example_message MSG_SYNC_REQUEST (fmt_u 1)) = [Reply fd (h, body)]
    \<and> node_chain (sync_section no_oom (example_node 1 [example_genesis]) (h, payload_ptr body)) = [example_genesis, example_block]"
proof -
  have "payload_string (example_message MSG_SYNC_REQUEST (fmt_u 1)) = fmt_u 1"
    using is_cstring_fmt_u [of 1] by (intro example_message_string) (simp_all add: fmt_u.simps)
  moreover have "length (csv_lines [example_block]) \<le> MAX_PAYLOAD_SIZE"
    using length_csv_line_le [OF example_printable(2)] by simp
  ultimately show ?thesis
    using sync_recovers [of no_oom "example_node 0 [example_genesis, example_block]" "example_node 1 [example_genesis]"
        "[example_block]" "example_message MSG_SYNC_REQUEST (fmt_u 1)"]
      example_chain_valid example_printable example_genesis_ok(3) by auto
qed



text \<open>
  C31. A query for the chain from an index on is answered with a file that loads back to exactly the
  blocks from that index to the end, when the text fits into one message.
\<close>

theorem query_chain_loads_back:
  assumes "alloc_total al" "chain_valid (node_chain n)" "blocks_storable (node_chain n)"
    "length (node_chain n) < 2 ^ 64" "i < length (node_chain n)"
    "payload_string msg = ''--index '' @ fmt_u i" "msg_len msg \<noteq> 0"
    "length (file_text (drop i (node_chain n))) \<le> MAX_PAYLOAD_SIZE"
  shows "\<exists>fd h body. handle_query_chain al n msg = [Reply fd (h, body)] \<and> msg_type h = message_code MSG_RESPONSE_OK
    \<and> load_file body = Inr (drop i (node_chain n))"
proof -
  let ?t = "file_text (drop i (node_chain n))"
  have p: "list_all block_printable (node_chain n)" using assms(3) by (auto simp: blocks_storable_def list_all_iff)
  have s: "blocks_storable (drop i (node_chain n))"
    using assms(3,5) by (auto simp: blocks_storable_def list_all_iff dest: in_set_dropD)
  have len: "length ?t mod 2 ^ 32 = length ?t" "0 < length ?t" using assms(8) by (simp_all add: file_text_lines)
  have "handle_query_chain al n msg = reply n msg MSG_RESPONSE_OK (Some ?t) (length ?t mod 2 ^ 32)"
    using query_chain_from [OF assms(1) p assms(2,4,5,6,7)] .
  then have "handle_query_chain al n msg = [Reply (q_client_fd msg) (\<lparr>magic = PROTOCOL_MAGIC, version = PROTOCOL_VERSION,
      msg_type = message_code MSG_RESPONSE_OK, sender_id = of_int (n_id n), payload_len = of_nat (length ?t)\<rparr>, ?t)]"
    using reply_fits [OF len(2) assms(8), of n msg MSG_RESPONSE_OK ?t] len(1) by simp
  moreover have "load_file ?t = Inr (drop i (node_chain n))" using s by (rule load_file_text)
  ultimately show ?thesis by (simp del: message_code.simps)
qed

theorem query_chain_loads_back_witness:
  "\<exists>fd h body. handle_query_chain no_oom (example_node 0 [example_genesis, example_block])
       (example_message MSG_QUERY_CHAIN (''--index '' @ fmt_u 1)) = [Reply fd (h, body)]
     \<and> load_file body = Inr [example_block]"
proof -
  let ?m = "example_message MSG_QUERY_CHAIN (''--index '' @ fmt_u 1)"
  have len: "length (fmt_u 1) = 1" by (simp add: fmt_u.simps)
  have "payload_string ?m = ''--index '' @ fmt_u 1" "msg_len ?m \<noteq> 0"
    using is_cstring_fmt_u [of 1] len
    by (subst example_message_string, simp_all) (subst example_message_len, simp_all)
  moreover have "length (file_text [example_block]) \<le> MAX_PAYLOAD_SIZE"
    using length_csv_line_le [OF example_printable(2)] by (simp add: file_text_lines)
  moreover have "blocks_storable [example_genesis, example_block]"
    using example_printable example_genesis_ok(3) by (simp add: blocks_storable_def)
  ultimately show ?thesis
    using query_chain_loads_back [of no_oom "example_node 0 [example_genesis, example_block]" 1 ?m] example_chain_valid(2)
    by auto
qed

end
