(* ===== verification/System.thy ===== *)
theory System
  imports Node
begin

text \<open>
  The nodes together: the coordinator, the followers, and the messages between them. The network is
  a set of payloads that the coordinator has sent; it may lose, delay, reorder and repeat them. A
  step is one critical section of one worker of one node, so that synchronisations of several
  workers interleave in every way. Followers may crash and start again from the initial state.
\<close>

record system =
  coord :: node_t
  follower :: "nat \<Rightarrow> node_t"
  commits :: "string set"
  syncs :: "string set"
  genesis :: "block_t list"

definition commit_bodies :: "node_output list \<Rightarrow> string set" where
  "commit_bodies outs = {snd m | path m. Sent path m \<in> set outs \<and> msg_type (fst m) = message_code MSG_BLOCK_COMMIT}"

definition sync_bodies :: "node_output list \<Rightarrow> string set" where
  "sync_bodies outs = {snd m | fd m. Reply fd m \<in> set outs \<and> msg_type (fst m) = message_code MSG_SYNC_RESPONSE}"

text \<open>A message on its way carries its payload with the length of it.\<close>

definition carries :: "queue_message_t \<Rightarrow> string \<Rightarrow> bool" where
  "carries msg body \<longleftrightarrow> q_payload msg = Some body \<and> msg_len msg = length body"

text \<open>
  The steps. Nobody sends commits to the coordinator: it skips itself in the broadcast. The text of
  the whole chain stays below \<open>2 ^ 32\<close> bytes, the range of the length field.
\<close>

inductive system_step :: "system \<Rightarrow> system \<Rightarrow> bool" where
  coordinator_handles: "handle_message al net r (coord s) msg = (c', outs) \<Longrightarrow> alloc_fits al \<Longrightarrow>
    msg_type (q_header msg) \<noteq> message_code MSG_BLOCK_COMMIT \<Longrightarrow>
    length (csv_lines (node_chain (coord s))) < 2 ^ 32 \<Longrightarrow>
    system_step s (s\<lparr>coord := c', commits := commits s \<union> commit_bodies outs,
                     syncs := syncs s \<union> sync_bodies outs\<rparr>)"
| follower_handles: "handle_message al net r (follower s i) msg = (f', outs) \<Longrightarrow> alloc_fits al \<Longrightarrow>
    msg_type (q_header msg) \<noteq> message_code MSG_BLOCK_COMMIT \<Longrightarrow>
    system_step s (s\<lparr>follower := (follower s)(i := f')\<rparr>)"
| follower_commits: "body \<in> commits s \<Longrightarrow> carries msg body \<Longrightarrow> alloc_fits al \<Longrightarrow>
    block_from_csv al (Some (payload_string msg)) = Inr b \<Longrightarrow>
    commit_section al (follower s i) b = (f', sync) \<Longrightarrow>
    system_step s (s\<lparr>follower := (follower s)(i := f')\<rparr>)"
| follower_syncs: "body \<in> syncs s \<Longrightarrow> unat (payload_len h) = length body \<Longrightarrow> alloc_fits al \<Longrightarrow>
    system_step s (s\<lparr>follower := (follower s)(i := sync_section al (follower s i) (h, Some body))\<rparr>)"
| follower_restarts: "node_inv f' \<Longrightarrow> node_chain f' = genesis s \<Longrightarrow> \<not> n_coordinator f' \<Longrightarrow>
    system_step s (s\<lparr>follower := (follower s)(i := f')\<rparr>)"

text \<open>All nodes start with the chain of the same initial state file.\<close>

definition system_init :: "system \<Rightarrow> bool" where
  "system_init s \<longleftrightarrow>
     n_coordinator (coord s) \<and> node_inv (coord s) \<and> node_chain (coord s) = genesis s
     \<and> chain_valid (genesis s) \<and> list_all block_clean (genesis s) \<and> commits s = {} \<and> syncs s = {}
     \<and> (\<forall>i. \<not> n_coordinator (follower s i) \<and> node_inv (follower s i) \<and> node_chain (follower s i) = genesis s)"

inductive system_reachable :: "system \<Rightarrow> bool" where
  system_starts: "system_init s \<Longrightarrow> system_reachable s"
| system_steps: "system_reachable s \<Longrightarrow> system_step s s' \<Longrightarrow> system_reachable s'"

section \<open>The invariant\<close>

definition coord_inv :: "system \<Rightarrow> bool" where
  "coord_inv s \<longleftrightarrow>
     n_coordinator (coord s) \<and> node_inv (coord s) \<and> chain_valid (node_chain (coord s))
     \<and> list_all block_clean (node_chain (coord s)) \<and> prefix (genesis s) (node_chain (coord s)) \<and> genesis s \<noteq> []"

definition net_inv :: "system \<Rightarrow> bool" where
  "net_inv s \<longleftrightarrow>
     (\<forall>body\<in>commits s. \<exists>b\<in>set (node_chain (coord s)). block_printable b \<and> body = csv_line b)
     \<and> (\<forall>body\<in>syncs s. \<exists>cs. set cs \<subseteq> set (node_chain (coord s)) \<and> list_all block_printable cs
                            \<and> body = csv_lines cs)"

definition follower_inv :: "block_t list \<Rightarrow> node_t \<Rightarrow> bool" where
  "follower_inv bs f \<longleftrightarrow> \<not> n_coordinator f \<and> node_inv f \<and> node_chain f \<noteq> [] \<and> prefix (node_chain f) bs"

definition system_inv :: "system \<Rightarrow> bool" where
  "system_inv s \<longleftrightarrow> coord_inv s \<and> net_inv s \<and> (\<forall>i. follower_inv (node_chain (coord s)) (follower s i))"

lemma system_init_inv: "system_init s \<Longrightarrow> system_inv s"
  by (auto simp: system_init_def system_inv_def coord_inv_def net_inv_def follower_inv_def chain_valid_def)

section \<open>The coordinator\<close>

lemma commit_bodies_append [simp]: "commit_bodies (a @ b) = commit_bodies a \<union> commit_bodies b"
  by (auto simp: commit_bodies_def)

lemma sync_bodies_append [simp]: "sync_bodies (a @ b) = sync_bodies a \<union> sync_bodies b"
  by (auto simp: sync_bodies_def)

lemma commit_bodies_reply [simp]: "commit_bodies (reply n msg kind p len) = {}"
  by (auto simp: commit_bodies_def dest: in_reply)

lemma sync_bodies_reply [simp]: "kind \<noteq> MSG_SYNC_RESPONSE \<Longrightarrow> sync_bodies (reply n msg kind p len) = {}"
  by (auto simp: sync_bodies_def message_code_inj dest!: in_reply simp del: message_code.simps)

lemma bodies_Nil [simp]: "commit_bodies [] = {}" "sync_bodies [] = {}"
  by (simp_all add: commit_bodies_def sync_bodies_def)

lemma query_bodies [simp]:
  "commit_bodies (handle_query_chain al n msg) = {}" "sync_bodies (handle_query_chain al n msg) = {}"
  "commit_bodies (handle_query_block al n msg) = {}" "sync_bodies (handle_query_block al n msg) = {}"
  "commit_bodies (handle_query_height n msg) = {}" "sync_bodies (handle_query_height n msg) = {}"
  "commit_bodies (handle_sync_request al n msg) = {}"
  by (simp_all add: handle_query_chain_def handle_query_block_def handle_query_height_def
      handle_sync_request_def Let_def split: option.splits sum.splits buffer_result.splits)

lemma broadcast_bodies:
  "sync_bodies (broadcast_commit al net n b) = {}"
  "body \<in> commit_bodies (broadcast_commit al net n b) \<Longrightarrow> block_printable b \<and> body = csv_line b"
  by (auto simp: sync_bodies_def commit_bodies_def dest: in_broadcast)

lemma set_mono_subseq: "subseq cs bs \<Longrightarrow> set cs \<subseteq> set bs"
  by (induction rule: list_emb.induct) auto

lemma length_csv_lines_subseq: "subseq cs bs \<Longrightarrow> length (csv_lines cs) \<le> length (csv_lines bs)"
  by (induction rule: list_emb.induct) auto

lemma length_csv_lines_drop: "length (csv_lines (drop k bs)) \<le> length (csv_lines bs)"
  by (intro length_csv_lines_subseq) (metis append_take_drop_id list_emb_append2 subseq_order.refl)

lemma sync_request_bodies:
  assumes "body \<in> sync_bodies (handle_sync_request al n msg)" "length (csv_lines (node_chain n)) < 2 ^ 32"
  shows "\<exists>cs. set cs \<subseteq> set (node_chain n) \<and> list_all block_printable cs \<and> body = csv_lines cs"
proof -
  obtain k buf where buf: "sync_buffer al (drop k (node_chain n)) [] 4096 = Some buf"
    and body: "body \<in> sync_bodies (reply n msg MSG_SYNC_RESPONSE (Some buf) (length buf mod 2 ^ 32))"
    using assms(1) by (auto simp: handle_sync_request_def Let_def split: if_splits option.splits)
  obtain cs where cs: "subseq cs (drop k (node_chain n))" "list_all block_printable cs" "buf = csv_lines cs"
    using sync_buffer_cases [OF buf] by auto
  have "length buf \<le> length (csv_lines (node_chain n))"
    unfolding cs(3) using length_csv_lines_subseq [OF cs(1)] length_csv_lines_drop by (rule le_trans)
  then have "length buf mod 2 ^ 32 = length buf" using assms(2) by simp
  with body have "body = buf" by (auto simp: sync_bodies_def dest!: in_reply)
  moreover have "set cs \<subseteq> set (node_chain n)"
    using set_mono_subseq [OF cs(1)] set_drop_subset by (rule subset_trans)
  ultimately show ?thesis using cs by blast
qed

lemma proposal_bodies:
  assumes "handle_block_proposal al net c msg = (c', outs)"
  shows "(\<forall>b\<in>set (node_chain c'). b \<in> set (node_chain c) \<or> block_clean b) \<and> sync_bodies outs = {}
    \<and> (\<forall>body\<in>commit_bodies outs. \<exists>b\<in>set (node_chain c'). block_printable b \<and> body = csv_line b)"
  using assms
proof (cases rule: proposal_outcome)
  case (accepted b)
  have "block_clean b"
    using accepted(1) by (rule block_from_csv_clean) (simp add: payload_string_def)
  with accepted show ?thesis by (auto simp: broadcast_bodies)
qed auto

lemma coordinator_outcome:
  assumes "handle_message al net r c msg = (c', outs)"
    "msg_type (q_header msg) \<noteq> message_code MSG_BLOCK_COMMIT" "length (csv_lines (node_chain c)) < 2 ^ 32"
  shows "(\<forall>b\<in>set (node_chain c'). b \<in> set (node_chain c) \<or> block_clean b)
    \<and> (\<forall>body\<in>commit_bodies outs. \<exists>b\<in>set (node_chain c'). block_printable b \<and> body = csv_line b)
    \<and> (\<forall>body\<in>sync_bodies outs. \<exists>cs. set cs \<subseteq> set (node_chain c) \<and> list_all block_printable cs \<and> body = csv_lines cs)"
proof (cases "msg_type (q_header msg) = message_code MSG_BLOCK_PROPOSAL \<and> n_coordinator c")
  case True
  then have "handle_block_proposal al net c msg = (c', outs)"
    using assms(1) by (simp add: handle_message_def Let_def)
  then show ?thesis using proposal_bodies by fastforce
next
  case False
  then show ?thesis
    using assms sync_request_bodies [of _ al c msg]
    by (auto simp: handle_message_def Let_def split: if_splits)
qed

lemma coordinator_step_inv:
  assumes "system_inv s" "handle_message al net r (coord s) msg = (c', outs)" "alloc_fits al"
    "msg_type (q_header msg) \<noteq> message_code MSG_BLOCK_COMMIT" "length (csv_lines (node_chain (coord s))) < 2 ^ 32"
  shows "system_inv (s\<lparr>coord := c', commits := commits s \<union> commit_bodies outs, syncs := syncs s \<union> sync_bodies outs\<rparr>)"
proof -
  have kept: "chain_kept (coord s) c'"
    using handle_message_kept [OF assms(3), of "coord s" net r msg] assms(1,2)
    by (simp add: system_inv_def coord_inv_def)
  then have pre: "prefix (node_chain (coord s)) (node_chain c')" by (simp add: chain_kept_def)
  then have sub: "set (node_chain (coord s)) \<subseteq> set (node_chain c')" by (rule set_mono_prefix)
  note out = coordinator_outcome [OF assms(2,4,5)]
  have "coord_inv (s\<lparr>coord := c', commits := commits s \<union> commit_bodies outs, syncs := syncs s \<union> sync_bodies outs\<rparr>)"
    using assms(1) kept out
    by (auto simp: system_inv_def coord_inv_def chain_kept_def list_all_iff intro: prefix_order.trans)
  moreover have "net_inv (s\<lparr>coord := c', commits := commits s \<union> commit_bodies outs, syncs := syncs s \<union> sync_bodies outs\<rparr>)"
    using assms(1) out sub unfolding system_inv_def net_inv_def by simp (meson Un_iff subset_trans subsetD)
  moreover have "follower_inv (node_chain c') (follower s i)" for i
    using assms(1) pre by (auto simp: system_inv_def follower_inv_def intro: prefix_order.trans)
  ultimately show ?thesis by (simp add: system_inv_def)
qed

section \<open>The followers\<close>

text \<open>The only block of a valid chain that links to the end of a proper prefix is the next one.\<close>

lemma next_index_unique:
  assumes "chain_valid bs" "length bs < 2 ^ 64" "prefix fs bs" "b \<in> set bs" "index b = of_nat (length fs)"
  shows "prefix (fs @ [b]) bs"
proof -
  obtain j where j: "j < length bs" "b = bs ! j" using assms(4) by (metis in_set_conv_nth)
  then have "(of_nat j :: u64) = of_nat (length fs)"
    using assms(1,5) chain_valid_index by metis
  moreover have "length fs \<le> length bs" using assms(3) by (rule prefix_length_le)
  ultimately have "j = length fs" using j assms(2) word_of_nat_inj_u64 [of j "length fs"] by simp
  moreover obtain zs where zs: "bs = fs @ zs" using assms(3) by (auto simp: prefix_def)
  ultimately have "zs \<noteq> []" "hd zs = b" using j by (auto simp: nth_append hd_conv_nth)
  then have "bs = (fs @ [b]) @ tl zs" using zs by (cases zs) auto
  then show ?thesis by (metis prefixI)
qed

lemma link_ok_next:
  assumes "chain_valid bs" "prefix fs bs" "fs \<noteq> []" "link_ok (last fs) b"
  shows "index b = of_nat (length fs)"
proof -
  have "fs = take (length fs) bs" using assms(2) by (metis append_eq_conv_conj prefixE)
  then have "chain_valid fs" using chain_valid_take [OF assms(1), of "length fs"] assms(3) by simp
  then have "index (last fs) = of_nat (length fs - 1)" by (rule chain_valid_last_index)
  moreover have "Suc (length fs - 1) = length fs" using assms(3) by (simp add: Suc_leI length_greater_0_conv [symmetric] del: length_greater_0_conv)
  ultimately show ?thesis using assms(4) by (metis link_ok_def of_nat_Suc add.commute)
qed

lemma append_cases_blocks:
  "blocks (the (snd (blockchain_append al (Some c) (Some b)))) = blocks c \<or>
   blocks (the (snd (blockchain_append al (Some c) (Some b)))) = blocks c @ [b]"
proof -
  obtain rc r where app: "blockchain_append al (Some c) (Some b) = (rc, r)" by fastforce
  then show ?thesis by (cases rule: blockchain_append_cases) (simp_all add: app)
qed

lemma follower_extends:
  assumes "follower_inv bs f" "chain_kept f f'" "node_chain f' = node_chain f \<or> prefix (node_chain f') bs"
  shows "follower_inv bs f'"
  using assms by (auto simp: follower_inv_def chain_kept_def)

lemma commit_section_follower:
  assumes "follower_inv bs f" "chain_valid bs" "length bs < 2 ^ 64" "b \<in> set bs" "alloc_fits al"
    "commit_section al f b = (f', sync)"
  shows "follower_inv bs f'"
proof (rule follower_extends [OF assms(1)])
  have "node_inv f" using assms(1) by (simp add: follower_inv_def)
  then show "chain_kept f f'" using commit_section_kept [OF assms(5), of f b] assms(6) by simp
  show "node_chain f' = node_chain f \<or> prefix (node_chain f') bs"
  proof (cases "index b = of_nat (length (node_chain f))")
    case True
    have "prefix (node_chain f) bs" using assms(1) by (simp add: follower_inv_def)
    then have "prefix (node_chain f @ [b]) bs" using next_index_unique assms(2-4) True by blast
    with True assms(6) append_cases_blocks [of al "n_chain f" b] show ?thesis
      by (auto simp: commit_section_def Let_def split: if_splits)
  qed (use assms(6) in \<open>auto simp: commit_section_def Let_def split: if_splits\<close>)
qed

lemma sync_line_follower:
  assumes "follower_inv bs f" "chain_valid bs" "length bs < 2 ^ 64" "b \<in> set bs" "block_clean b"
    "block_printable b" "alloc_fits al"
  shows "follower_inv bs (sync_line al f (csv_line b))"
proof (rule follower_extends [OF assms(1)])
  show "chain_kept f (sync_line al f (csv_line b))" using assms(7) by (rule sync_line_kept)
  have f: "prefix (node_chain f) bs" "node_chain f \<noteq> []" using assms(1) by (auto simp: follower_inv_def)
  have sep: "separable (txs b)" using assms(5) by (simp add: block_clean_def block_parsed_def)
  have l: "last_block (n_chain f) = Some (last (node_chain f))"
    using f(2) by (simp add: last_block_def last_conv_nth)
  have next_ok: "prefix (node_chain f @ [b]) bs" if "validate_block_link al (Some (last (node_chain f))) (Some b) = PROJECT_OK"
    using that validate_block_link_OK link_ok_next [OF assms(2) f] next_index_unique [OF assms(2,3) f(1) assms(4)] by blast
  show "node_chain (sync_line al f (csv_line b)) = node_chain f \<or> prefix (node_chain (sync_line al f (csv_line b))) bs"
  proof (cases "block_from_csv al (Some (csv_line b))")
    case (Inr b')
    then have "b' = b" using block_from_csv_line_unique [OF _ assms(6) sep] by blast
    with Inr l next_ok append_cases_blocks [of al "n_chain f" b] show ?thesis
      by (auto simp: sync_line_def Let_def)
  qed (simp add: sync_line_def)
qed

lemma sync_lines_follower:
  assumes "follower_inv bs f" "chain_valid bs" "length bs < 2 ^ 64" "list_all block_clean bs"
    "set cs \<subseteq> set bs" "list_all block_printable cs" "alloc_fits al"
  shows "follower_inv bs (foldl (sync_line al) f (map csv_line cs))"
  using assms(1,5,6)
proof (induction cs arbitrary: f)
  case (Cons c cs)
  then have "follower_inv bs (sync_line al f (csv_line c))"
    using assms(2-4,7) by (intro sync_line_follower) (auto simp: list_all_iff)
  with Cons show ?case by simp
qed simp

lemma csv_lines_cstring: "list_all block_printable cs \<Longrightarrow> list_all block_cstrings cs \<Longrightarrow> is_cstring (csv_lines cs)"
  by (induction cs) (auto simp: csv_line_cstring)

lemma coord_inv_bounds:
  "coord_inv s \<Longrightarrow> chain_valid (node_chain (coord s)) \<and> length (node_chain (coord s)) < 2 ^ 64"
  using chain_fits_count [of "n_chain (coord s)"] by (simp add: coord_inv_def node_inv_def)

lemma follower_commits_inv:
  assumes "system_inv s" "body \<in> commits s" "carries msg body" "alloc_fits al"
    "block_from_csv al (Some (payload_string msg)) = Inr b" "commit_section al (follower s i) b = (f', sync)"
  shows "follower_inv (node_chain (coord s)) f'"
proof -
  obtain b0 where b0: "b0 \<in> set (node_chain (coord s))" "block_printable b0" "body = csv_line b0"
    using assms(1,2) by (auto simp: system_inv_def net_inv_def)
  then have clean: "block_clean b0" using assms(1) by (simp add: system_inv_def coord_inv_def list_all_iff)
  then have "payload_string msg = csv_line b0"
    using assms(3) b0 csv_line_cstring [OF b0(2)] by (simp add: payload_string_def carries_def block_clean_def)
  then have "b = b0"
    using block_from_csv_line_unique [OF _ b0(2)] assms(5) clean by (simp add: block_clean_def block_parsed_def)
  then show ?thesis
    using commit_section_follower [OF _ _ _ _ assms(4,6)] assms(1) b0(1) coord_inv_bounds [of s]
    by (simp add: system_inv_def)
qed

lemma follower_syncs_inv:
  assumes "system_inv s" "body \<in> syncs s" "unat (payload_len h) = length body" "alloc_fits al"
  shows "follower_inv (node_chain (coord s)) (sync_section al (follower s i) (h, Some body))"
proof -
  obtain cs where cs: "set cs \<subseteq> set (node_chain (coord s))" "list_all block_printable cs" "body = csv_lines cs"
    using assms(1,2) by (auto simp: system_inv_def net_inv_def)
  have clean: "list_all block_clean (node_chain (coord s))" using assms(1) by (simp add: system_inv_def coord_inv_def)
  with cs(1) have "list_all block_cstrings cs" by (auto simp: list_all_iff block_clean_def)
  then have "cstr (take (unat (payload_len h)) body) = csv_lines cs"
    using csv_lines_cstring cs(2,3) assms(3) by simp
  then show ?thesis
    using sync_lines_follower [OF _ _ _ clean cs(1,2) assms(4)] assms(1) coord_inv_bounds [of s] cs(2)
    by (simp add: sync_section_def strtok_csv_lines system_inv_def)
qed

lemma follower_handles_inv:
  assumes "system_inv s" "handle_message al net r (follower s i) msg = (f', outs)"
    "msg_type (q_header msg) \<noteq> message_code MSG_BLOCK_COMMIT"
  shows "f' = follower s i"
  using assms by (auto simp: handle_message_def Let_def system_inv_def follower_inv_def split: if_splits)

lemma system_inv_follower:
  "system_inv s \<Longrightarrow> follower_inv (node_chain (coord s)) f' \<Longrightarrow> system_inv (s\<lparr>follower := (follower s)(i := f')\<rparr>)"
  by (auto simp: system_inv_def coord_inv_def net_inv_def)

lemma system_step_inv: "system_step s s' \<Longrightarrow> system_inv s \<Longrightarrow> system_inv s'"
proof (induction rule: system_step.induct)
  case (coordinator_handles al net r s msg c' outs)
  then show ?case by (intro coordinator_step_inv)
next
  case (follower_handles al net r s i msg f' outs)
  then have "f' = follower s i" by (intro follower_handles_inv)
  with follower_handles show ?case by simp
next
  case (follower_commits body s msg al b i f' sync)
  then show ?case by (intro system_inv_follower follower_commits_inv)
next
  case (follower_syncs body s h al i)
  then show ?case by (intro system_inv_follower follower_syncs_inv)
next
  case (follower_restarts f' s i)
  then show ?case
    by (intro system_inv_follower) (auto simp: follower_inv_def system_inv_def coord_inv_def)
qed

lemma system_reachable_inv: "system_reachable s \<Longrightarrow> system_inv s"
  by (induction rule: system_reachable.induct) (auto intro: system_init_inv system_step_inv)

section \<open>Properties\<close>

definition example_system :: system where
  "example_system =
     \<lparr>coord = example_node 0 [example_genesis], follower = (\<lambda>_. example_node 1 [example_genesis]),
      commits = {}, syncs = {}, genesis = [example_genesis]\<rparr>"

lemma example_system_init: "system_init example_system"
  using example_node_inv(1) example_chain_valid(1) example_clean(1)
  by (simp add: system_init_def example_system_def)

lemma follower_valid:
  "follower_inv bs f \<Longrightarrow> chain_valid bs \<Longrightarrow> chain_valid (node_chain f)"
proof -
  assume f: "follower_inv bs f" and v: "chain_valid bs"
  have "node_chain f = take (length (node_chain f)) bs"
    using f unfolding follower_inv_def by (metis append_eq_conv_conj prefixE)
  then show ?thesis using chain_valid_take [OF v, of "length (node_chain f)"] f by (simp add: follower_inv_def)
qed





end
