(* ===== verification/NodeLoop.thy ===== *)
theory NodeLoop
  imports Node
begin

text \<open>
  The threads of a node (\<open>receiver_main\<close>, \<open>worker_main\<close>, \<open>node_run\<close>, \<open>node_destroy\<close> and \<open>main\<close> of
  \<^verbatim>\<open>node/node.c\<close>): the receiver accepts connections and queues their messages, the workers take them
  out and handle them. It also defines what one connection to a node answers, for the processes that
  ask nodes.
\<close>

section \<open>The receiver\<close>

text \<open>
  One pass of the loop: the answers of \<open>accept\<close>, how the bytes of the connection are read. \<open>None\<close>
  says that the receiver waits, for a connection or for room in the queue.
\<close>

definition receiver_turn ::
  "alloc \<Rightarrow> accept_answer list \<Rightarrow> sys_answer list \<Rightarrow> char list \<Rightarrow> node_t \<Rightarrow> node_t option" where
  "receiver_turn al answers sc bytes node =
     (if \<not> n_running node then Some node
      else (case ipc_server_accept answers of
              None \<Rightarrow> None
            | Some (Inl e) \<Rightarrow> Some node
            | Some (Inr client_fd) \<Rightarrow>
                (case ipc_recv al sc bytes of
                   Inl e \<Rightarrow> Some node
                 | Inr (header, payload) \<Rightarrow>
                     (case node_queue_push (Some (n_queue node))
                             (Some \<lparr>q_header = header, q_payload = payload, q_client_fd = client_fd\<rparr>) of
                        None \<Rightarrow> None
                      | Some (rc, q) \<Rightarrow> Some (node\<lparr>n_queue := the q\<rparr>)))))"

section \<open>The workers\<close>

type_synonym worker_env = "alloc \<times> net \<times> (message_header_t \<times> char list ptr) option"

datatype worker_result = Worker_waits | Worker_ends | Worker_continues node_t "node_output list"

definition worker_turn :: "worker_env \<Rightarrow> node_t \<Rightarrow> worker_result" where
  "worker_turn e node =
     (case node_queue_pop (Some (n_queue node)) of
        None \<Rightarrow> Worker_waits
      | Some (rc, msg, q) \<Rightarrow>
          if rc = ERR_NOT_FOUND then Worker_ends
          else if rc \<noteq> PROJECT_OK then Worker_continues node []
          else (case e of
                  (al, net, response) \<Rightarrow>
                    (case handle_message al net response (node\<lparr>n_queue := the q\<rparr>) (the msg) of
                       (node', outs) \<Rightarrow> Worker_continues node' outs)))"

lemma sync_line_queue [simp]: "n_queue (sync_line al n l) = n_queue n"
  by (auto simp: sync_line_def Let_def split: sum.splits prod.splits)

lemma sync_lines_queue [simp]: "n_queue (foldl (sync_line al) n ls) = n_queue n"
  by (induction ls arbitrary: n) simp_all

lemma sync_section_queue [simp]: "n_queue (sync_section al n r) = n_queue n"
  by (simp add: sync_section_def split: option.splits)

lemma commit_section_queue: "commit_section al n b = (n', s) \<Longrightarrow> n_queue n' = n_queue n"
  by (auto simp: commit_section_def Let_def split: if_splits)

lemma proposal_queue [simp]: "n_queue (fst (handle_block_proposal al net n msg)) = n_queue n"
  by (simp add: handle_block_proposal_def Let_def split: option.split sum.split prod.split)

lemma block_commit_queue [simp]: "n_queue (fst (handle_block_commit al net r n msg)) = n_queue n"
proof (cases "block_from_csv al (Some (payload_string msg))")
  case (Inr b)
  obtain n' s where "commit_section al n b = (n', s)" by fastforce
  with Inr commit_section_queue [OF this] show ?thesis
    by (simp add: handle_block_commit_def split: option.split sum.split)
qed (simp add: handle_block_commit_def)

lemma handle_message_queue: "n_queue (fst (handle_message al net r n msg)) = n_queue n"
  by (simp add: handle_message_def Let_def)

lemma worker_turn_shrinks:
  assumes "worker_turn e n = Worker_continues n' outs"
  shows "q_count (n_queue n') < q_count (n_queue n)"
proof -
  obtain al net r where e: "e = (al, net, r)" by (metis prod_cases3)
  have ne: "0 < q_count (n_queue n)"
    using assms by (auto simp: worker_turn_def node_queue_pop_def split: if_splits)
  obtain q m where q: "node_queue_pop (Some (n_queue n)) = Some (PROJECT_OK, Some m, Some q)"
    "q_count q < q_count (n_queue n)"
    using ne by (simp add: node_queue_pop_def)
  have "n_queue n' = q"
    using assms q e handle_message_queue [of al net r "n\<lparr>n_queue := q\<rparr>" m]
    by (auto simp: worker_turn_def split: prod.splits)
  with q(2) show ?thesis by simp
qed

text \<open>
  The loop of one worker while nobody else touches the queue: it handles message after message, each
  in its own environment, until it has to wait (\<open>False\<close>) or ends (\<open>True\<close>).
\<close>

function worker_main :: "(nat \<Rightarrow> worker_env) \<Rightarrow> nat \<Rightarrow> node_t \<Rightarrow> bool \<times> node_t \<times> node_output list" where
  "worker_main env i node =
     (case worker_turn (env i) node of
        Worker_waits \<Rightarrow> (False, node, [])
      | Worker_ends \<Rightarrow> (True, node, [])
      | Worker_continues node' outs \<Rightarrow>
          (case worker_main env (i + 1) node' of (ended, node'', outs') \<Rightarrow> (ended, node'', outs @ outs')))"
  by pat_completeness auto
termination
  by (relation "measure (\<lambda>(env, i, node). q_count (n_queue node))") (auto dest: worker_turn_shrinks)

declare worker_main.simps [simp del]

section \<open>Run and exit\<close>

text \<open>
  \<open>node_run\<close> starts the receiver and four workers and waits for all of them; the answers of
  \<open>pthread_create\<close> are arguments.
\<close>

abbreviation NODE_WORKER_COUNT :: nat where
  "NODE_WORKER_COUNT \<equiv> 4"

definition node_run :: "bool \<Rightarrow> (nat \<Rightarrow> bool) \<Rightarrow> node_t ptr \<Rightarrow> project_error_t" where
  "node_run receiver_created worker_created node =
     (case node of
        None \<Rightarrow> ERR_INVALID_ARGUMENT
      | Some n \<Rightarrow>
          if \<not> receiver_created then ERR_PROCESS
          else if list_all worker_created [0..<NODE_WORKER_COUNT] then PROJECT_OK else ERR_PROCESS)"

text \<open>The exit status of the program: the arguments, the answers of the environment.\<close>

datatype exit_status = EXIT_SUCCESS | EXIT_FAILURE

definition node_main ::
  "alloc \<Rightarrow> endpoint_env \<Rightarrow> rfile option option \<Rightarrow> bool \<Rightarrow> (nat \<Rightarrow> bool) \<Rightarrow> string list \<Rightarrow> exit_status" where
  "node_main al env initial_state receiver_created worker_created argv =
     (case argv of
        [prog, arg1, arg2] \<Rightarrow>
          (case node_init al env initial_state (atoi arg1) (Some arg2) of
             Inl e \<Rightarrow> EXIT_FAILURE
           | Inr node \<Rightarrow>
               if node_run receiver_created worker_created (Some node) = PROJECT_OK
               then EXIT_SUCCESS else EXIT_FAILURE)
      | _ \<Rightarrow> EXIT_FAILURE)"

section \<open>One connection\<close>

text \<open>
  What a connection to a node sees: the receiver reads the message, a worker handles it, and the
  replies on this connection are written before it is closed.
\<close>

definition reply_bytes :: "nat \<Rightarrow> node_output list \<Rightarrow> char list" where
  "reply_bytes fd outs =
     concat (map (\<lambda>out. case out of Reply fd' m \<Rightarrow> if fd' = fd then wire_bytes m else [] | Sent path m \<Rightarrow> []) outs)"

definition node_serve :: "worker_env \<Rightarrow> sys_answer list \<Rightarrow> nat \<Rightarrow> node_t \<Rightarrow> char list \<Rightarrow> node_t \<times> char list" where
  "node_serve e sc fd node bytes =
     (case e of (al, net, response) \<Rightarrow>
        (case ipc_recv al sc bytes of
           Inl rc \<Rightarrow> (node, [])
         | Inr (header, payload) \<Rightarrow>
             (case handle_message al net response node
                     \<lparr>q_header = header, q_payload = payload, q_client_fd = fd\<rparr> of
                (node', outs) \<Rightarrow> (node', reply_bytes fd outs))))"

section \<open>The queue does not matter to the handlers\<close>

lemma replies_other_queue [simp]:
  "reply (n\<lparr>n_queue := q\<rparr>) msg kind p len = reply n msg kind p len"
  "send_to net (n\<lparr>n_queue := q\<rparr>) f num kind line = send_to net n f num kind line"
  by (simp_all add: reply_def send_to_def split: sum.split)

lemma broadcast_other_queue [simp]: "broadcast_commit al net (n\<lparr>n_queue := q\<rparr>) b = broadcast_commit al net n b"
  by (simp add: broadcast_commit_def cong: if_cong split: sum.split)

lemma queries_other_queue [simp]:
  "handle_query_chain al (n\<lparr>n_queue := q\<rparr>) msg = handle_query_chain al n msg"
  "handle_query_block al (n\<lparr>n_queue := q\<rparr>) msg = handle_query_block al n msg"
  "handle_query_height (n\<lparr>n_queue := q\<rparr>) msg = handle_query_height n msg"
  "handle_sync_request al (n\<lparr>n_queue := q\<rparr>) msg = handle_sync_request al n msg"
  by (simp_all add: handle_query_chain_def handle_query_block_def handle_query_height_def handle_sync_request_def
      Let_def split: option.split sum.split buffer_result.split)

lemma update_chain_queue [simp]: "n\<lparr>n_queue := q\<rparr>\<lparr>n_chain := c\<rparr> = n\<lparr>n_chain := c\<rparr>\<lparr>n_queue := q\<rparr>"
  by simp

lemma proposal_other_queue:
  "handle_block_proposal al net (n\<lparr>n_queue := q\<rparr>) msg = apfst (\<lambda>n. n\<lparr>n_queue := q\<rparr>) (handle_block_proposal al net n msg)"
  by (simp add: handle_block_proposal_def Let_def apfst_def map_prod_def split: option.split sum.split prod.split)

lemma sync_line_other_queue: "sync_line al (n\<lparr>n_queue := q\<rparr>) l = (sync_line al n l)\<lparr>n_queue := q\<rparr>"
  by (simp add: sync_line_def Let_def split: sum.split)

lemma sync_section_other_queue: "sync_section al (n\<lparr>n_queue := q\<rparr>) r = (sync_section al n r)\<lparr>n_queue := q\<rparr>"
proof -
  have "foldl (sync_line al) (n\<lparr>n_queue := q\<rparr>) ls = (foldl (sync_line al) n ls)\<lparr>n_queue := q\<rparr>" for ls
    by (induction ls arbitrary: n) (simp_all add: sync_line_other_queue)
  then show ?thesis by (simp add: sync_section_def split: option.split)
qed

lemma commit_section_other_queue:
  "commit_section al (n\<lparr>n_queue := q\<rparr>) b = apfst (\<lambda>n. n\<lparr>n_queue := q\<rparr>) (commit_section al n b)"
  by (simp add: commit_section_def Let_def)

lemma block_commit_other_queue:
  "handle_block_commit al net r (n\<lparr>n_queue := q\<rparr>) msg = apfst (\<lambda>n. n\<lparr>n_queue := q\<rparr>) (handle_block_commit al net r n msg)"
proof (cases "block_from_csv al (Some (payload_string msg))")
  case (Inr b)
  obtain n' s where c: "commit_section al n b = (n', s)" by fastforce
  with Inr show ?thesis
    by (simp add: handle_block_commit_def commit_section_other_queue sync_section_other_queue
        split: option.split sum.split)
qed (simp add: handle_block_commit_def)

lemma handle_message_other_queue:
  "handle_message al net r (n\<lparr>n_queue := q\<rparr>) msg = apfst (\<lambda>n. n\<lparr>n_queue := q\<rparr>) (handle_message al net r n msg)"
  by (simp add: handle_message_def Let_def proposal_other_queue block_commit_other_queue)

section \<open>Workers drain the queue\<close>

text \<open>The reference: the messages handled one after the other, without a queue.\<close>

fun handle_all :: "(nat \<Rightarrow> worker_env) \<Rightarrow> nat \<Rightarrow> node_t \<Rightarrow> queue_message_t list \<Rightarrow> node_t \<times> node_output list" where
  "handle_all env i node [] = (node, [])"
| "handle_all env i node (m # ms) =
     (case env i of (al, net, r) \<Rightarrow>
        (case handle_message al net r node m of
           (node', outs) \<Rightarrow> (case handle_all env (i + 1) node' ms of (node'', outs') \<Rightarrow> (node'', outs @ outs'))))"

lemma worker_turn_pops:
  assumes "queue_wf (n_queue n)" "queue_list (n_queue n) = m # ms" "env = (al, net, r)"
    "handle_message al net r n m = (n1, outs)"
  shows "\<exists>q. worker_turn env n = Worker_continues (n1\<lparr>n_queue := q\<rparr>) outs \<and> queue_wf q \<and> queue_list q = ms
     \<and> q_shutting_down q = q_shutting_down (n_queue n)"
proof -
  have "q_count (n_queue n) \<noteq> 0" using assms(2) length_queue_list [of "n_queue n"] by (metis Zero_not_Suc length_Cons)
  then obtain p r' where pop: "node_queue_pop (Some (n_queue n)) = Some (PROJECT_OK, p, r')"
    by (simp add: node_queue_pop_def)
  from pop_OK [OF assms(1) pop] assms(2) obtain q where "p = Some m" "r' = Some q" "queue_wf q"
    "queue_list q = ms" "q_shutting_down q = q_shutting_down (n_queue n)" by auto
  with pop assms(3,4) show ?thesis by (auto simp: worker_turn_def handle_message_other_queue)
qed

lemma handle_all_other_queue:
  "handle_all env i (n\<lparr>n_queue := q\<rparr>) ms = apfst (\<lambda>n. n\<lparr>n_queue := q\<rparr>) (handle_all env i n ms)"
  by (induction ms arbitrary: i n) (simp_all add: handle_message_other_queue split: prod.split)

lemma worker_main_drains:
  assumes "queue_wf (n_queue n)" "handle_all env i n (queue_list (n_queue n)) = (n1, outs)"
  shows "\<exists>q. worker_main env i n = (q_shutting_down (n_queue n), n1\<lparr>n_queue := q\<rparr>, outs)
     \<and> queue_wf q \<and> queue_list q = [] \<and> q_shutting_down q = q_shutting_down (n_queue n)"
  using assms
proof (induction "queue_list (n_queue n)" arbitrary: n i n1 outs)
  case Nil
  then have empty: "q_count (n_queue n) = 0" by (metis length_0_conv length_queue_list)
  have "worker_turn (env i) n = (if q_shutting_down (n_queue n) then Worker_ends else Worker_waits)"
    using empty by (simp add: worker_turn_def node_queue_pop_def)
  moreover have "n1 = n" "outs = []" using Nil(1,3) by (simp_all add: Nil(1) [symmetric])
  ultimately have "worker_main env i n = (q_shutting_down (n_queue n), n1\<lparr>n_queue := n_queue n\<rparr>, outs)"
    by (subst worker_main.simps) simp
  with Nil(1,2) show ?case by metis
next
  case (Cons m ms)
  obtain al net r where e: "env i = (al, net, r)" by (metis prod_cases3)
  obtain n2 o2 where h: "handle_message al net r n m = (n2, o2)" by fastforce
  from worker_turn_pops [OF Cons(3) Cons(2) [symmetric] e h] obtain q where
    turn: "worker_turn (env i) n = Worker_continues (n2\<lparr>n_queue := q\<rparr>) o2" and q: "queue_wf q" "queue_list q = ms"
      "q_shutting_down q = q_shutting_down (n_queue n)" by auto
  obtain n3 o3 where all: "handle_all env (i + 1) n2 ms = (n3, o3)" by fastforce
  then have all': "handle_all env (i + 1) (n2\<lparr>n_queue := q\<rparr>) (queue_list (n_queue (n2\<lparr>n_queue := q\<rparr>))) = (n3\<lparr>n_queue := q\<rparr>, o3)"
    using q by (simp add: handle_all_other_queue)
  from Cons(1) [of "n2\<lparr>n_queue := q\<rparr>", OF _ _ all'] q
  obtain q' where "worker_main env (i + 1) (n2\<lparr>n_queue := q\<rparr>) = (q_shutting_down q, n3\<lparr>n_queue := q'\<rparr>, o3)"
    "queue_wf q'" "queue_list q' = []" "q_shutting_down q' = q_shutting_down q" by auto
  moreover have "n1 = n3" "outs = o2 @ o3"
    using Cons(4) all e h by (simp_all add: Cons(2) [symmetric])
  ultimately show ?case using turn q(3) by (subst worker_main.simps) auto
qed

section \<open>Connections that work\<close>

text \<open>A message that arrives completely is handled, and a single reply reaches the peer.\<close>

definition queued :: "nat \<Rightarrow> message_header_t \<times> char list \<Rightarrow> queue_message_t" where
  "queued fd m = \<lparr>q_header = fst m, q_payload = payload_ptr (snd m), q_client_fd = fd\<rparr>"

lemma queued_fields [simp]:
  "q_header (queued fd m) = fst m" "q_client_fd (queued fd m) = fd" "q_payload (queued fd m) = payload_ptr (snd m)"
  by (simp_all add: queued_def)

lemma queued_payload_string:
  "message_ok m \<Longrightarrow> is_cstring (snd m) \<Longrightarrow> payload_string (queued fd m) = snd m"
  by (simp add: payload_string_def message_ok_def payload_ptr_def)

lemma node_serve_message:
  assumes "message_ok m" "no_errors sc" "al (length (snd m))"
    "handle_message al net r n (queued fd m) = (n', outs)"
  shows "node_serve (al, net, r) sc fd n (wire_bytes m) = (n', reply_bytes fd outs)"
  using ipc_recv_eq [where al = al and rest = "[]", OF assms(1,2)] assms(3,4) by (simp add: node_serve_def queued_def)

lemma reply_bytes_single [simp]: "reply_bytes fd [Reply fd m] = wire_bytes m"
  by (simp add: reply_bytes_def)

lemma reply_bytes_append [simp]: "reply_bytes fd (a @ b) = reply_bytes fd a @ reply_bytes fd b"
  by (simp add: reply_bytes_def)

lemma reply_bytes_broadcast [simp]: "reply_bytes fd (broadcast_commit al net n b) = []"
  using in_broadcast by (fastforce simp: reply_bytes_def split: node_output.splits)

section \<open>Properties\<close>

definition busy_node :: node_t where
  "busy_node = (example_node 0 [example_genesis])\<lparr>n_queue :=
     \<lparr>q_items = example_message MSG_QUERY_HEIGHT [] # replicate 63 queue_message_zero, q_head = 0, q_tail = 1,
      q_count = 1, q_shutting_down = False\<rparr>\<rparr>"





end
