(* ===== verification/Mempool.thy ===== *)
theory Mempool
  imports Block "HOL-Library.Multiset"
begin

text \<open>
  The pool of pending transactions of a miner (\<^verbatim>\<open>include/miner.h\<close>, \<^verbatim>\<open>miner/mempool.c\<close>): an array of
  256 strings and a counter under one mutex. What the pool holds is the multiset of the live
  strings; the contract the miner relies on is the locale \<open>transaction_pool\<close>.
\<close>

section \<open>Operations\<close>

abbreviation MEMPOOL_CAPACITY :: nat where
  "MEMPOOL_CAPACITY \<equiv> 256"

record mempool_t =
  pool_slots :: "string list"
  pool_count :: nat

text \<open>The second argument says whether the mutex could be set up.\<close>

definition mempool_init :: "mempool_t ptr \<Rightarrow> bool \<Rightarrow> project_error_t \<times> mempool_t ptr" where
  "mempool_init pool mutex_ok =
     (case pool of
        None \<Rightarrow> (ERR_INVALID_ARGUMENT, None)
      | Some p \<Rightarrow> (if mutex_ok then PROJECT_OK else ERR_PROCESS, Some (p\<lparr>pool_count := 0\<rparr>)))"

definition mempool_destroy :: "mempool_t ptr \<Rightarrow> mempool_t ptr" where
  "mempool_destroy pool = map_option (\<lambda>p. p\<lparr>pool_count := 0\<rparr>) pool"

definition mempool_add :: "mempool_t ptr \<Rightarrow> string ptr \<Rightarrow> project_error_t \<times> mempool_t ptr" where
  "mempool_add pool transaction =
     (case (pool, transaction) of
        (Some p, Some t) \<Rightarrow>
          if length t = 0 \<or> MAX_TRANSACTION_LENGTH \<le> length t then (ERR_INVALID_TRANSACTION, pool)
          else if MEMPOOL_CAPACITY \<le> pool_count p then (ERR_INVALID_BLOCK, pool)
          else (PROJECT_OK,
                Some (p\<lparr>pool_slots := (pool_slots p)[pool_count p := t], pool_count := pool_count p + 1\<rparr>))
      | _ \<Rightarrow> (ERR_INVALID_ARGUMENT, pool))"

text \<open>The result is the list of copied strings; its length is the returned number.\<close>

definition mempool_snapshot :: "mempool_t ptr \<Rightarrow> nat \<Rightarrow> string list" where
  "mempool_snapshot pool max_count =
     (case pool of
        None \<Rightarrow> []
      | Some p \<Rightarrow>
          (let copied = (if pool_count p < max_count then pool_count p else max_count)
           in map (\<lambda>i. pool_slots p ! i) [0..<copied]))"

text \<open>The loop over the slots: a removed slot receives the last live string and is looked at again.\<close>

function remove_loop :: "string list \<Rightarrow> nat \<Rightarrow> mempool_t \<Rightarrow> mempool_t" where
  "remove_loop included i p =
     (if i < pool_count p then
        (if pool_slots p ! i \<in> set included
         then (let n = pool_count p - 1 in
               remove_loop included i
                 (p\<lparr>pool_slots := (if i \<noteq> n then (pool_slots p)[i := pool_slots p ! n] else pool_slots p),
                    pool_count := n\<rparr>))
         else remove_loop included (i + 1) p)
      else p)"
  by pat_completeness auto
termination
  by (relation "measure (\<lambda>(included, i, p). pool_count p - i)") auto

declare remove_loop.simps [simp del]

definition mempool_remove_included :: "mempool_t ptr \<Rightarrow> string list ptr \<Rightarrow> mempool_t ptr" where
  "mempool_remove_included pool included =
     (case (pool, included) of (Some p, Some ts) \<Rightarrow> Some (remove_loop ts 0 p) | _ \<Rightarrow> pool)"

definition mempool_size :: "mempool_t ptr \<Rightarrow> nat" where
  "mempool_size pool = (case pool of None \<Rightarrow> 0 | Some p \<Rightarrow> pool_count p)"

section \<open>Contents and invariant\<close>

definition pool_live :: "mempool_t \<Rightarrow> string list" where
  "pool_live p = take (pool_count p) (pool_slots p)"

definition pool_wf :: "mempool_t \<Rightarrow> bool" where
  "pool_wf p \<longleftrightarrow> length (pool_slots p) = MEMPOOL_CAPACITY \<and> pool_count p \<le> MEMPOOL_CAPACITY
     \<and> list_all tx_storable (pool_live p)"

lemma length_pool_live: "pool_wf p \<Longrightarrow> length (pool_live p) = pool_count p"
  by (simp add: pool_live_def pool_wf_def)

lemma mempool_init_wf:
  "mempool_init (Some p) ok = (rc, Some p') \<Longrightarrow> length (pool_slots p) = MEMPOOL_CAPACITY \<Longrightarrow>
   pool_wf p' \<and> pool_live p' = []"
  by (auto simp: mempool_init_def pool_wf_def pool_live_def)

lemma mempool_add_cases:
  assumes "pool_wf p"
  shows "mempool_add (Some p) (Some t) =
           (if \<not> tx_storable t then (ERR_INVALID_TRANSACTION, Some p)
            else if pool_count p = MEMPOOL_CAPACITY then (ERR_INVALID_BLOCK, Some p)
            else (PROJECT_OK, Some (p\<lparr>pool_slots := (pool_slots p)[pool_count p := t],
                                      pool_count := pool_count p + 1\<rparr>)))"
  using assms by (auto simp: mempool_add_def tx_storable_def pool_wf_def)

lemma mempool_add_OK:
  assumes "pool_wf p" "mempool_add (Some p) (Some t) = (PROJECT_OK, r)"
  shows "\<exists>p'. r = Some p' \<and> pool_wf p' \<and> pool_live p' = pool_live p @ [t] \<and> tx_storable t"
proof -
  have p: "tx_storable t" "pool_count p < MEMPOOL_CAPACITY" "length (pool_slots p) = MEMPOOL_CAPACITY"
    "r = Some (p\<lparr>pool_slots := (pool_slots p)[pool_count p := t], pool_count := pool_count p + 1\<rparr>)"
    using assms by (auto simp: mempool_add_cases pool_wf_def split: if_splits)
  then show ?thesis
    using assms(1) by (auto simp: pool_live_def pool_wf_def take_Suc_conv_app_nth)
qed

lemma mempool_snapshot_take:
  "pool_wf p \<Longrightarrow> mempool_snapshot (Some p) n = take n (pool_live p)"
  by (rule nth_equalityI) (auto simp: mempool_snapshot_def pool_live_def pool_wf_def Let_def min_def)

lemma take_swap_last:
  assumes "i < n" "n < length xs"
  shows "mset (take n (xs[i := xs ! n])) + {#xs ! i#} = mset (take (Suc n) xs)"
proof -
  have "take (Suc n) xs = take n xs @ [xs ! n]" using assms(2) by (rule take_Suc_conv_app_nth)
  moreover have "mset (take n (xs[i := xs ! n])) = add_mset (xs ! n) (mset (take n xs) - {#xs ! i#})"
    using assms by (simp add: take_update_swap mset_update)
  moreover have "xs ! i \<in># mset (take n xs)"
    using assms nth_mem [of i "take n xs"] by simp
  ultimately show ?thesis by simp
qed

text \<open>The loop keeps the invariant and removes exactly the included strings, all occurrences of them.\<close>

lemma remove_loop_spec:
  assumes "length (pool_slots p) = MEMPOOL_CAPACITY" "pool_count p \<le> MEMPOOL_CAPACITY"
    "i \<le> pool_count p" "\<forall>j<i. pool_slots p ! j \<notin> set included"
  shows "length (pool_slots (remove_loop included i p)) = MEMPOOL_CAPACITY
    \<and> pool_count (remove_loop included i p) \<le> pool_count p
    \<and> mset (pool_live (remove_loop included i p)) = filter_mset (\<lambda>t. t \<notin> set included) (mset (pool_live p))"
  using assms
proof (induction included i p rule: remove_loop.induct)
  case (1 included i p)
  show ?case
  proof (cases "i < pool_count p")
    case False
    with 1 have "\<forall>j<pool_count p. pool_slots p ! j \<notin> set included" by simp
    then have "t \<notin> set included" if "t \<in> set (pool_live p)" for t
      using that in_set_conv_nth [of t "pool_live p"] 1(3) by (auto simp: pool_live_def)
    then have "filter_mset (\<lambda>t. t \<notin> set included) (mset (pool_live p)) = mset (pool_live p)"
      by (simp add: filter_mset_eq_conv)
    with False 1 show ?thesis by (subst (1 2 3) remove_loop.simps) simp
  next
    case True
    show ?thesis
    proof (cases "pool_slots p ! i \<in> set included")
      case False
      with 1 True show ?thesis
        by (subst (1 2 3) remove_loop.simps) (simp add: less_Suc_eq)
    next
      case hit: True
      define n where "n = pool_count p - 1"
      define p' where "p' = p\<lparr>pool_slots := (if i \<noteq> n then (pool_slots p)[i := pool_slots p ! n] else pool_slots p),
                              pool_count := n\<rparr>"
      have n: "pool_count p = Suc n" "n < length (pool_slots p)" "i \<le> n" using True 1 by (auto simp: n_def)
      have step: "remove_loop included i p = remove_loop included i p'"
        using True hit by (subst remove_loop.simps) (simp add: n_def p'_def Let_def)
      have "mset (pool_live p') + {#pool_slots p ! i#} = mset (pool_live p)"
        using n take_swap_last [of i n "pool_slots p"]
        by (cases "i = n") (auto simp: pool_live_def p'_def take_Suc_conv_app_nth)
      with hit have "filter_mset (\<lambda>t. t \<notin> set included) (mset (pool_live p')) =
          filter_mset (\<lambda>t. t \<notin> set included) (mset (pool_live p))"
        by (metis (mono_tags, lifting) add.right_neutral filter_empty_mset filter_single_mset filter_union_mset)
      moreover have "length (pool_slots (remove_loop included i p')) = MEMPOOL_CAPACITY
        \<and> pool_count (remove_loop included i p') \<le> pool_count p'
        \<and> mset (pool_live (remove_loop included i p')) = filter_mset (\<lambda>t. t \<notin> set included) (mset (pool_live p'))"
      proof (rule 1(1) [OF True hit n_def, folded p'_def])
        show "length (pool_slots p') = MEMPOOL_CAPACITY" "pool_count p' \<le> MEMPOOL_CAPACITY"
          "i \<le> pool_count p'" using 1(3,4) n by (auto simp: p'_def)
        show "\<forall>j<i. pool_slots p' ! j \<notin> set included" using 1(6) by (auto simp: p'_def)
      qed
      ultimately show ?thesis using step n by (simp add: p'_def)
    qed
  qed
qed

lemma remove_included_spec:
  assumes "pool_wf p" "mempool_remove_included (Some p) (Some ts) = Some p'"
  shows "pool_wf p' \<and> mset (pool_live p') = filter_mset (\<lambda>t. t \<notin> set ts) (mset (pool_live p))"
proof -
  have p': "p' = remove_loop ts 0 p" using assms(2) by (simp add: mempool_remove_included_def)
  have spec: "length (pool_slots p') = MEMPOOL_CAPACITY" "pool_count p' \<le> pool_count p"
    "mset (pool_live p') = filter_mset (\<lambda>t. t \<notin> set ts) (mset (pool_live p))"
    using remove_loop_spec [of p 0 ts] assms(1) by (simp_all add: p' pool_wf_def)
  then have "set (pool_live p') \<subseteq> set (pool_live p)"
    by (metis multiset_filter_subset set_mset_mono set_mset_mset)
  with spec assms(1) show ?thesis by (auto simp: pool_wf_def list_all_iff)
qed

section \<open>The contract of a pool of transactions\<close>

locale transaction_pool =
  fixes ok :: "'p \<Rightarrow> bool" and held :: "'p \<Rightarrow> 't multiset" and bound :: nat
    and add :: "'p \<Rightarrow> 't \<Rightarrow> 'p option" and take_some :: "'p \<Rightarrow> nat \<Rightarrow> 't list" and drop_all :: "'p \<Rightarrow> 't list \<Rightarrow> 'p"
  assumes add_law: "ok p \<Longrightarrow> add p t = Some p' \<Longrightarrow> ok p' \<and> held p' = add_mset t (held p)"
    and take_law: "ok p \<Longrightarrow> mset (take_some p n) \<subseteq># held p \<and> length (take_some p n) = min n (size (held p))"
    and drop_law: "ok p \<Longrightarrow> ok (drop_all p ts) \<and> held (drop_all p ts) = filter_mset (\<lambda>t. t \<notin> set ts) (held p)"
    and bound_law: "ok p \<Longrightarrow> size (held p) \<le> bound"
begin

lemma dropped_gone: "ok p \<Longrightarrow> t \<in> set ts \<Longrightarrow> t \<notin># held (drop_all p ts)"
  using drop_law by simp

lemma others_stay: "ok p \<Longrightarrow> t \<notin> set ts \<Longrightarrow> count (held (drop_all p ts)) t = count (held p) t"
  using drop_law by simp

text \<open>Committing a snapshot makes progress: the pool shrinks by at least what was taken.\<close>

lemma commit_shrinks: "ok p \<Longrightarrow> size (held (drop_all p (take_some p n))) + length (take_some p n) \<le> size (held p)"
proof -
  assume p: "ok p"
  let ?ts = "take_some p n"
  have "filter_mset (\<lambda>t. t \<notin> set ?ts) (held p) + mset ?ts \<subseteq># held p"
  proof (rule mset_subset_eqI)
    fix t
    have "count (mset ?ts) t \<le> count (held p) t" using take_law [OF p] by (simp add: mset_subset_eq_count)
    then show "count (filter_mset (\<lambda>t. t \<notin> set ?ts) (held p) + mset ?ts) t \<le> count (held p) t"
      by (cases "t \<in> set ?ts") (auto simp: count_eq_zero_iff [THEN iffD2])
  qed
  then have "size (filter_mset (\<lambda>t. t \<notin> set ?ts) (held p) + mset ?ts) \<le> size (held p)"
    by (rule size_mset_mono)
  then show ?thesis using drop_law [OF p] by simp
qed

end

definition pool_add :: "mempool_t \<Rightarrow> string \<Rightarrow> mempool_t option" where
  "pool_add p t = (case mempool_add (Some p) (Some t) of (rc, r) \<Rightarrow> if rc = PROJECT_OK then r else None)"

definition pool_drop :: "mempool_t \<Rightarrow> string list \<Rightarrow> mempool_t" where
  "pool_drop p ts = the (mempool_remove_included (Some p) (Some ts))"

interpretation pool: transaction_pool pool_wf "\<lambda>p. mset (pool_live p)" MEMPOOL_CAPACITY pool_add
  "\<lambda>p. mempool_snapshot (Some p)" pool_drop
proof
  fix p t p' assume "pool_wf p" "pool_add p t = Some p'"
  then show "pool_wf p' \<and> mset (pool_live p') = add_mset t (mset (pool_live p))"
    using mempool_add_OK [of p t "Some p'"] by (auto simp: pool_add_def split: prod.splits if_splits)
next
  fix p n assume "pool_wf p"
  then show "mset (mempool_snapshot (Some p) n) \<subseteq># mset (pool_live p)
      \<and> length (mempool_snapshot (Some p) n) = min n (size (mset (pool_live p)))"
    by (metis append_take_drop_id length_take min.commute mempool_snapshot_take mset_append mset_subset_eq_add_left size_mset)
next
  fix p ts assume "pool_wf p"
  then show "pool_wf (pool_drop p ts) \<and>
      mset (pool_live (pool_drop p ts)) = filter_mset (\<lambda>t. t \<notin> set ts) (mset (pool_live p))"
    using remove_included_spec [of p ts "pool_drop p ts"]
    by (simp add: pool_drop_def mempool_remove_included_def)
qed (simp add: length_pool_live pool_wf_def)

section \<open>Properties\<close>

definition sample_pool :: mempool_t where
  "sample_pool = \<lparr>pool_slots = [''a'', ''b'', ''a'', ''c''] @ replicate 252 [], pool_count = 4\<rparr>"

lemma sample_pool_wf: "pool_wf sample_pool"
  by (simp add: sample_pool_def pool_wf_def pool_live_def tx_storable_def)

text \<open>
  C29. Removing the transactions of a committed block, by moving the last string into the freed slot
  and looking at it again, ends and removes exactly those transactions, every occurrence of them: the
  multiset of what is left is the old one without them, and the pool stays well-formed. Removing
  what a snapshot took shrinks the pool by at least the size of the snapshot.
\<close>

theorem remove_included_exact:
  assumes "pool_wf p"
  shows "\<exists>p'. mempool_remove_included (Some p) (Some ts) = Some p' \<and> pool_wf p'
    \<and> mset (pool_live p') = filter_mset (\<lambda>t. t \<notin> set ts) (mset (pool_live p))
    \<and> (ts = mempool_snapshot (Some p) n \<longrightarrow> mempool_size (Some p') + length ts \<le> mempool_size (Some p))"
proof -
  obtain p' where p': "mempool_remove_included (Some p) (Some ts) = Some p'"
    by (simp add: mempool_remove_included_def)
  note spec = remove_included_spec [OF assms p']
  have "pool_drop p ts = p'" using p' by (simp add: pool_drop_def)
  then have "ts = mempool_snapshot (Some p) n \<longrightarrow> mempool_size (Some p') + length ts \<le> mempool_size (Some p)"
    using pool.commit_shrinks [OF assms, of n] length_pool_live [OF assms] length_pool_live [of p'] spec
    by (auto simp: mempool_size_def)
  with p' spec show ?thesis by blast
qed

theorem remove_included_exact_witness:
  "\<exists>p'. mempool_remove_included (Some sample_pool) (Some [''a'']) = Some p' \<and> mset (pool_live p') = {#''b'', ''c''#}"
  using remove_included_exact [OF sample_pool_wf, of "[''a'']" 0] by (auto simp: sample_pool_def pool_live_def)

text \<open>
  Adding to the pool: a text that is empty or longer than 255 characters and a text for a full
  pool are refused without a change, every other text becomes the last entry; a snapshot is the
  prefix of the pool of the requested size. The invariant is kept, so the pool never holds more than
  256 transactions.
\<close>

theorem mempool_add_outcome:
  assumes "pool_wf p"
  shows "(case mempool_add (Some p) (Some t) of
      (rc, r) \<Rightarrow> \<exists>p'. r = Some p' \<and> pool_wf p' \<and> mempool_size r \<le> MEMPOOL_CAPACITY
        \<and> mempool_snapshot r n = take n (pool_live p')
        \<and> (if \<not> tx_storable t then rc = ERR_INVALID_TRANSACTION \<and> p' = p
           else if mempool_size (Some p) = MEMPOOL_CAPACITY then rc = ERR_INVALID_BLOCK \<and> p' = p
           else rc = PROJECT_OK \<and> pool_live p' = pool_live p @ [t]))"
proof -
  obtain rc r where a: "mempool_add (Some p) (Some t) = (rc, r)" by fastforce
  show ?thesis
  proof (cases "rc = PROJECT_OK")
    case True
    with mempool_add_OK [OF assms, of t r] a obtain p' where p': "r = Some p'" "pool_wf p'"
      "pool_live p' = pool_live p @ [t]" "tx_storable t" by auto
    moreover have "mempool_size (Some p) \<noteq> MEMPOOL_CAPACITY"
      using a True p'(4) by (auto simp: mempool_add_cases [OF assms] mempool_size_def)
    ultimately show ?thesis
      using a True by (simp add: mempool_snapshot_take mempool_size_def pool_wf_def)
  next
    case False
    with a assms show ?thesis
      by (auto simp: mempool_add_cases mempool_snapshot_take mempool_size_def pool_wf_def split: if_splits)
  qed
qed

theorem mempool_add_outcome_witness:
  "\<exists>p'. mempool_add (Some sample_pool) (Some ''d'') = (PROJECT_OK, Some p') \<and> pool_live p' = [''a'', ''b'', ''a'', ''c'', ''d'']"
  using mempool_add_outcome [OF sample_pool_wf, where t = "''d''" and n = 0]
  by (auto simp: tx_storable_def mempool_size_def sample_pool_def pool_live_def split: prod.splits)

end
