(* ===== verification/Miner.thy ===== *)
theory Miner
  imports NodeLoop Mempool
begin

text \<open>
  The miner process (\<^verbatim>\<open>include/miner.h\<close>, \<^verbatim>\<open>miner/miner.c\<close>). Two threads share one state: the
  communication thread receives transactions and committed blocks, the mining thread builds
  candidate blocks on the miner's view of the tip of the chain and proposes them to node 0. A
  handler takes the state and returns the new state and the messages it sends; whatever the other
  thread does in between is an argument of the operations of the mining thread. Sockets, memory,
  time and random numbers are arguments too; log lines are left out.
\<close>

section \<open>State\<close>

record miner_state_t =
  m_id :: int
  m_runtime_dir :: string
  m_difficulty :: int
  m_mempool :: mempool_t
  m_next_index :: u64
  m_previous_hash :: string
  m_restart_mining :: bool
  m_shutting_down :: bool

datatype miner_output =
    Ack nat "message_header_t \<times> char list"
  | Proposal string "char list"

text \<open>The 64 zeros that stand for the hash before the first block.\<close>

definition zero_hash :: string where
  "zero_hash = replicate 64 (CHR ''0'')"

section \<open>The view of the tip\<close>

definition query_node ::
  "alloc \<Rightarrow> net \<Rightarrow> connection \<Rightarrow> string \<Rightarrow> message_type_t \<Rightarrow> string ptr \<Rightarrow>
   project_error_t + (message_header_t \<times> char list ptr)" where
  "query_node al net conn runtime_dir type payload =
     (case ipc_build_socket_path (Some runtime_dir) (Some NODE_SOCK_FORMAT) 0 MAX_SOCKET_PATH_LEN of
        Inl e \<Rightarrow> Inl ERR_INVALID_ARGUMENT
      | Inr sock_path \<Rightarrow>
          (case ipc_connect (net sock_path) (Some sock_path) of
             Inl e \<Rightarrow> Inl e
           | Inr fd \<Rightarrow>
               (let len = (case payload of None \<Rightarrow> 0 | Some p \<Rightarrow> length p mod 2 ^ 32) in
                case ipc_send (conn_writes conn) type 0 payload len of
                  (rc, out) \<Rightarrow>
                    if rc \<noteq> PROJECT_OK then Inl rc
                    else ipc_recv al (conn_reads conn) (conn_peer conn out))))"

definition set_tip :: "miner_state_t \<Rightarrow> u64 \<Rightarrow> string \<Rightarrow> miner_state_t" where
  "set_tip state next hash =
     state\<lparr>m_next_index := next, m_previous_hash := hash, m_restart_mining := True\<rparr>"

text \<open>
  The two queries of \<open>resync_from_node\<close> run on two connections. The first asks for the height, of
  which at most 31 characters are read; \<open>None\<close> is a failure, after which the state is left alone.
\<close>

definition query_height :: "alloc \<Rightarrow> net \<Rightarrow> connection \<Rightarrow> miner_state_t \<Rightarrow> int option" where
  "query_height al net conn state =
     (case query_node al net conn (m_runtime_dir state) MSG_QUERY_HEIGHT (Some []) of
        Inl e \<Rightarrow> None
      | Inr (header, response) \<Rightarrow>
          if payload_len header = 0 then None
          else (let copy_len = (if unat (payload_len header) < 31 then unat (payload_len header) else 31);
                    height_text = cstr (take copy_len (the response)) in
                case strtol 10 height_text of
                  (height, rest, range_error) \<Rightarrow>
                    if rest = height_text \<or> range_error \<or> height < 0 then None else Some height))"

text \<open>The second asks for the last block; its arguments are printed into a buffer of 32 bytes.\<close>

definition query_tip ::
  "alloc \<Rightarrow> net \<Rightarrow> connection \<Rightarrow> miner_state_t \<Rightarrow> int \<Rightarrow> (u64 \<times> string) option" where
  "query_tip al net conn state height =
     (let query_args = take 31 (''--index '' @ fmt_d (height - 1)) in
      case query_node al net conn (m_runtime_dir state) MSG_QUERY_BLOCK (Some query_args) of
        Inl e \<Rightarrow> None
      | Inr (header, response) \<Rightarrow>
          if payload_len header = 0 then None
          else if \<not> al (unat (payload_len header) + 1) then None
          else (case block_from_csv al (Some (cstr (take (unat (payload_len header)) (the response)))) of
                  Inl e \<Rightarrow> None
                | Inr tip \<Rightarrow>
                    (case calculate_block_hash al (Some tip) of
                       Inl e \<Rightarrow> None
                     | Inr last_hash \<Rightarrow> Some (index tip + 1, last_hash))))"

definition resync_from_node ::
  "alloc \<Rightarrow> net \<Rightarrow> connection \<times> connection \<Rightarrow> miner_state_t \<Rightarrow> miner_state_t" where
  "resync_from_node al net conns state =
     (case query_height al net (fst conns) state of
        None \<Rightarrow> state
      | Some height \<Rightarrow>
          if height = 0 then set_tip state 0 zero_hash
          else (case query_tip al net (snd conns) state height of
                  None \<Rightarrow> state
                | Some (next, last_hash) \<Rightarrow> set_tip state next last_hash))"

section \<open>Messages\<close>

text \<open>An answer on the connection of a client; a send that is refused leaves no trace.\<close>

definition tx_ack :: "miner_state_t \<Rightarrow> nat \<Rightarrow> string \<Rightarrow> miner_output list" where
  "tx_ack state client_fd text =
     (case ipc_message MSG_TX_ACK (of_int (m_id state)) (Some text) (length text) of
        Inl e \<Rightarrow> [] | Inr m \<Rightarrow> [Ack client_fd m])"

definition error_reply :: "project_error_t \<Rightarrow> string" where
  "error_reply rc = take 127 (''ERR '' @ fmt_d (error_code rc) @ '' '' @ project_error_string (error_code rc))"

text \<open>At most 255 bytes of the payload are copied into the buffer of the transaction.\<close>

definition submitted_text :: "char list ptr \<Rightarrow> nat \<Rightarrow> string" where
  "submitted_text payload len =
     (let copy_len = (if len < MAX_TRANSACTION_LENGTH - 1 then len else MAX_TRANSACTION_LENGTH - 1)
      in cstr (case payload of None \<Rightarrow> [] | Some p \<Rightarrow> take copy_len p))"

definition handle_tx_submit ::
  "alloc \<Rightarrow> miner_state_t \<Rightarrow> char list ptr \<Rightarrow> nat \<Rightarrow> nat \<Rightarrow> miner_state_t \<times> miner_output list" where
  "handle_tx_submit al state payload len client_fd =
     (let transaction = submitted_text payload len;
          result = validate_transaction al (Some transaction) in
      if result \<noteq> PROJECT_OK then (state, tx_ack state client_fd (error_reply result))
      else (case mempool_add (Some (m_mempool state)) (Some transaction) of
              (result, pool) \<Rightarrow>
                let state' = state\<lparr>m_mempool := the pool\<rparr> in
                if result \<noteq> PROJECT_OK then (state', tx_ack state' client_fd (error_reply result))
                else (state', tx_ack state' client_fd ''OK'')))"

definition miner_block_commit :: "alloc \<Rightarrow> miner_state_t \<Rightarrow> char list ptr \<Rightarrow> nat \<Rightarrow> miner_state_t" where
  "miner_block_commit al state payload len =
     (case payload of
        None \<Rightarrow> state
      | Some p \<Rightarrow>
          if len = 0 then state
          else if \<not> al (len + 1) then state
          else (case block_from_csv al (Some (cstr (take len p))) of
                  Inl e \<Rightarrow> state
                | Inr block \<Rightarrow>
                    (case calculate_block_hash al (Some block) of
                       Inl e \<Rightarrow> state
                     | Inr hash \<Rightarrow>
                         (let state' = state\<lparr>m_mempool :=
                                the (mempool_remove_included (Some (m_mempool state)) (Some (txs block)))\<rparr>
                          in if m_next_index state' \<le> index block
                             then set_tip state' (index block + 1) hash
                             else state'))))"

definition miner_handle_message ::
  "alloc \<Rightarrow> net \<Rightarrow> connection \<times> connection \<Rightarrow> miner_state_t \<Rightarrow> message_header_t \<Rightarrow> char list ptr \<Rightarrow> nat \<Rightarrow>
   miner_state_t \<times> miner_output list" where
  "miner_handle_message al net conns state header payload client_fd =
     (let type = msg_type header in
      if type = message_code MSG_TX_SUBMIT
      then handle_tx_submit al state payload (unat (payload_len header)) client_fd
      else if type = message_code MSG_BLOCK_COMMIT
      then (miner_block_commit al state payload (unat (payload_len header)), [])
      else if type = message_code MSG_BLOCK_REJECT then (resync_from_node al net conns state, [])
      else if type = message_code MSG_SHUTDOWN then (state\<lparr>m_shutting_down := True\<rparr>, [])
      else (state, []))"

section \<open>The communication thread\<close>

text \<open>
  One turn of the loop: \<open>select\<close> reports a connection or not, the answers of \<open>accept\<close>, the bytes
  that arrive and how they are read, and the environment of the handler. A signal may arrive at any
  moment. \<open>None\<close> is a turn that waits in \<open>accept\<close>.
\<close>

record comm_env =
  ce_alloc :: alloc
  ce_net :: net
  ce_conns :: "connection \<times> connection"
  ce_ready :: bool
  ce_accept :: "accept_answer list"
  ce_reads :: "sys_answer list"
  ce_bytes :: "char list"

datatype comm_event = Turn comm_env | Signal

definition handle_termination_signal :: "miner_state_t \<Rightarrow> miner_state_t" where
  "handle_termination_signal state = state\<lparr>m_shutting_down := True\<rparr>"

definition communication_turn :: "comm_env \<Rightarrow> miner_state_t \<Rightarrow> miner_state_t \<times> miner_output list" where
  "communication_turn e state =
     (if m_shutting_down state \<or> \<not> ce_ready e then (state, [])
      else (case ipc_server_accept (ce_accept e) of
              None \<Rightarrow> (state, [])
            | Some (Inl rc) \<Rightarrow> (state, [])
            | Some (Inr client_fd) \<Rightarrow>
                (case ipc_recv (ce_alloc e) (ce_reads e) (ce_bytes e) of
                   Inl rc \<Rightarrow> (state, [])
                 | Inr (header, payload) \<Rightarrow>
                     miner_handle_message (ce_alloc e) (ce_net e) (ce_conns e) state header payload client_fd)))"

fun comm_step :: "miner_state_t \<Rightarrow> comm_event \<Rightarrow> miner_state_t" where
  "comm_step state (Turn e) = fst (communication_turn e state)"
| "comm_step state Signal = handle_termination_signal state"

text \<open>What the communication thread and signals do to the state while the mining thread does not look.\<close>

abbreviation comm_run :: "miner_state_t \<Rightarrow> comm_event list \<Rightarrow> miner_state_t" where
  "comm_run \<equiv> foldl comm_step"

text \<open>The endpoint of a miner, created before the loop; on a failure the thread ends.\<close>

definition communication_start :: "net \<Rightarrow> miner_state_t \<Rightarrow> (string \<times> int) option" where
  "communication_start net state =
     (case ipc_build_socket_path (Some (m_runtime_dir state)) (Some MINER_SOCK_FORMAT) (m_id state)
             MAX_SOCKET_PATH_LEN of
        Inl e \<Rightarrow> None
      | Inr sock_path \<Rightarrow>
          (case ipc_server_create (net sock_path) (Some sock_path) of
             Inl e \<Rightarrow> None
           | Inr server_fd \<Rightarrow> Some (sock_path, server_fd)))"

section \<open>The mining thread\<close>

text \<open>
  Each return of \<open>pthread_cond_timedwait\<close> comes with what the other thread did meanwhile and says
  whether the deadline has passed. The deadline is fixed before the loop, so it passes at the latest
  when the list of wake-ups is used up.
\<close>

datatype wake = Wake (wake_events: "comm_event list") (wake_timeout: bool)

fun wait_or_abort :: "wake list \<Rightarrow> miner_state_t \<Rightarrow> bool \<times> miner_state_t" where
  "wait_or_abort [] state = (m_restart_mining state \<or> m_shutting_down state, state)"
| "wait_or_abort (w # ws) state =
     (if m_restart_mining state \<or> m_shutting_down state then (True, state)
      else (let state' = comm_run state (wake_events w) in
            if wake_timeout w then (m_restart_mining state' \<or> m_shutting_down state', state')
            else wait_or_abort ws state'))"

text \<open>The block is printed, sent to node 0, and the answer is read and thrown away.\<close>

definition propose_block ::
  "alloc \<Rightarrow> net \<Rightarrow> connection \<Rightarrow> miner_state_t \<Rightarrow> block_t \<Rightarrow> miner_output list" where
  "propose_block al net conn state block =
     (case block_to_csv al (Some block) of
        Inl e \<Rightarrow> []
      | Inr line \<Rightarrow>
          (case ipc_build_socket_path (Some (m_runtime_dir state)) (Some NODE_SOCK_FORMAT) 0 MAX_SOCKET_PATH_LEN of
             Inl e \<Rightarrow> []
           | Inr sock_path \<Rightarrow>
               (case ipc_connect (net sock_path) (Some sock_path) of
                  Inl e \<Rightarrow> []
                | Inr fd \<Rightarrow>
                    [Proposal sock_path
                       (snd (ipc_send (conn_writes conn) MSG_BLOCK_PROPOSAL (of_int (m_id state)) (Some line)
                               (length line mod 2 ^ 32)))])))"

text \<open>The block of one attempt; \<open>None\<close> when a step of building it fails.\<close>

definition build_candidate ::
  "alloc \<Rightarrow> u64 \<Rightarrow> string \<Rightarrow> u64 \<Rightarrow> u64 \<Rightarrow> string list \<Rightarrow> block_t option" where
  "build_candidate al candidate_index prev time rand batch =
     (let candidate = block_zero\<lparr>index := candidate_index, timestamp := time, nonce := rand, previous_hash := prev\<rparr> in
      case add_transactions al (Some candidate) (map Some batch) of
        (rc, added) \<Rightarrow>
          if rc \<noteq> PROJECT_OK then None
          else (case calculate_merkle_root al (map_option transactions added) of
                  Inl e \<Rightarrow> None
                | Inr root \<Rightarrow> map_option (\<lambda>b. b\<lparr>merkle_root := root\<rparr>) added))"

text \<open>
  The environment of one attempt: what the other thread does before the snapshot and while the
  candidate is built, the wake-ups of the wait, the time, and the random numbers for the nonce and
  for the roll of the dice. The length of the wait, one to five seconds by a third random number, only
  decides which wake-ups come after the deadline.
\<close>

record mining_env =
  me_alloc :: alloc
  me_net :: net
  me_conn :: connection
  me_before :: "comm_event list"
  me_building :: "comm_event list"
  me_wakes :: "wake list"
  me_time :: u64
  me_nonce :: nat
  me_dice :: nat

datatype mining_result = Stops | Continues miner_state_t "block_t option"

text \<open>
  One pass of the loop of \<open>mining_thread_main\<close>, up to the call of \<open>propose_block\<close>: the result names
  the candidate that is proposed.
\<close>

definition mining_attempt :: "mining_env \<Rightarrow> miner_state_t \<Rightarrow> mining_result" where
  "mining_attempt e state =
     (if m_shutting_down state then Stops
      else (let state1 = state\<lparr>m_restart_mining := False\<rparr>;
                candidate_index = m_next_index state1;
                prev = m_previous_hash state1;
                state2 = comm_run state1 (me_before e);
                batch = mempool_snapshot (Some (m_mempool state2)) MAX_TRANSACTIONS_PER_BLOCK in
            if batch = []
            then Continues
                   (if \<not> m_shutting_down state2 \<and> \<not> m_restart_mining state2
                    then comm_run state2 (case me_wakes e of [] \<Rightarrow> [] | w # ws \<Rightarrow> wake_events w)
                    else state2) None
            else (case build_candidate (me_alloc e) candidate_index prev (me_time e) (of_nat (me_nonce e)) batch of
                    None \<Rightarrow> Continues state2 None
                  | Some candidate \<Rightarrow>
                      (case wait_or_abort (me_wakes e) (comm_run state2 (me_building e)) of
                         (aborted, state3) \<Rightarrow>
                           if aborted then Continues state3 None
                           else if 0 < m_difficulty state3 \<and> int (me_dice e) mod m_difficulty state3 = 0
                                then Continues state3 (Some candidate)
                                else Continues state3 None))))"

text \<open>The loop, over the environments of its passes, with the messages of the proposals.\<close>

fun mining_loop :: "mining_env list \<Rightarrow> miner_state_t \<Rightarrow> miner_state_t \<times> miner_output list" where
  "mining_loop [] state = (state, [])"
| "mining_loop (e # es) state =
     (case mining_attempt e state of
        Stops \<Rightarrow> (state, [])
      | Continues state' None \<Rightarrow> mining_loop es state'
      | Continues state' (Some b) \<Rightarrow>
          (case mining_loop es state' of
             (state'', outs) \<Rightarrow> (state'', propose_block (me_alloc e) (me_net e) (me_conn e) state' b @ outs)))"

definition mining_thread_main ::
  "alloc \<Rightarrow> net \<Rightarrow> connection \<times> connection \<Rightarrow> mining_env list \<Rightarrow> miner_state_t \<Rightarrow>
   miner_state_t \<times> miner_output list" where
  "mining_thread_main al net conns es state = mining_loop es (resync_from_node al net conns state)"

section \<open>Start\<close>

text \<open>
  The arguments of the program and the state it starts with. The storage of the pool is that of a
  zeroed structure; setting up its mutex may fail.
\<close>

definition miner_start :: "bool \<Rightarrow> string list \<Rightarrow> miner_state_t option" where
  "miner_start mutex_ok argv =
     (case argv of
        [prog, arg1, arg2, arg3] \<Rightarrow>
          (case mempool_init (Some \<lparr>pool_slots = replicate MEMPOOL_CAPACITY [], pool_count = 0\<rparr>) mutex_ok of
             (rc, pool) \<Rightarrow>
               if rc \<noteq> PROJECT_OK then None
               else Some \<lparr>m_id = atoi arg1, m_runtime_dir = take 255 arg2,
                          m_difficulty = (if atoi arg3 \<le> 0 then 1 else atoi arg3), m_mempool = the pool,
                          m_next_index = 0, m_previous_hash = zero_hash,
                          m_restart_mining = False, m_shutting_down = False\<rparr>)
      | _ \<Rightarrow> None)"

section \<open>The view of the tip changes only with a flag\<close>

text \<open>
  The contract between the two threads: whoever changes the view raises the flag, and only the
  reader takes it down. A reader that finds the flag down after any number of steps of the others
  still has the current view.
\<close>

locale flagged_view =
  fixes flag :: "'s \<Rightarrow> bool" and view :: "'s \<Rightarrow> 'v" and step :: "'s \<Rightarrow> 'e \<Rightarrow> 's"
  assumes flag_stays: "flag s \<Longrightarrow> flag (step s e)"
    and change_flags: "view (step s e) \<noteq> view s \<Longrightarrow> flag (step s e)"
begin

lemma run_flag: "flag s \<Longrightarrow> flag (foldl step s es)"
  by (induction es arbitrary: s) (simp_all add: flag_stays)

lemma run_unflagged: "\<not> flag (foldl step s es) \<Longrightarrow> view (foldl step s es) = view s \<and> \<not> flag s"
proof (induction es arbitrary: s)
  case (Cons e es)
  then have "view (foldl step (step s e) es) = view (step s e)" "\<not> flag (step s e)" by auto
  with flag_stays change_flags show ?case by (metis foldl_Cons)
qed simp

end

abbreviation miner_tip :: "miner_state_t \<Rightarrow> u64 \<times> string" where
  "miner_tip s \<equiv> (m_next_index s, m_previous_hash s)"

text \<open>What a handler may do to the state.\<close>

definition tip_kept :: "miner_state_t \<Rightarrow> miner_state_t \<Rightarrow> bool" where
  "tip_kept s s' \<longleftrightarrow> (m_restart_mining s \<longrightarrow> m_restart_mining s') \<and> (miner_tip s' \<noteq> miner_tip s \<longrightarrow> m_restart_mining s')
     \<and> (m_shutting_down s \<longrightarrow> m_shutting_down s')
     \<and> m_id s' = m_id s \<and> m_runtime_dir s' = m_runtime_dir s \<and> m_difficulty s' = m_difficulty s"

lemma tip_kept_simple [simp]:
  "tip_kept s s" "tip_kept s (set_tip s i h)" "tip_kept s (s\<lparr>m_mempool := p\<rparr>)"
  "tip_kept s (set_tip (s\<lparr>m_mempool := p\<rparr>) i h)" "tip_kept s (s\<lparr>m_shutting_down := True\<rparr>)"
  by (simp_all add: tip_kept_def set_tip_def)

lemma query_tip_Some:
  "query_tip al net conn s h = Some (next, hash) \<Longrightarrow> \<exists>b. next = index b + 1 \<and> hash = block_hash b"
  by (auto simp: query_tip_def Let_def dest!: calculate_block_hash_Inr split: sum.splits if_splits)

lemma resync_cases:
  obtains (same) "resync_from_node al net conns s = s"
  | (empty) "resync_from_node al net conns s = set_tip s 0 zero_hash"
  | (tip) b where "resync_from_node al net conns s = set_tip s (index b + 1) (block_hash b)"
proof (cases "query_height al net (fst conns) s")
  case None
  then show thesis by (intro same) (simp add: resync_from_node_def)
next
  case h: (Some h)
  show thesis
  proof (cases "h = 0 \<or> query_tip al net (snd conns) s h = None")
    case True
    with h same empty show thesis by (cases "h = 0") (simp_all add: resync_from_node_def)
  next
    case False
    then obtain i hash where r: "query_tip al net (snd conns) s h = Some (i, hash)" by auto
    with h False have "resync_from_node al net conns s = set_tip s i hash" by (simp add: resync_from_node_def)
    with query_tip_Some [OF r] tip show thesis by blast
  qed
qed

lemma miner_block_commit_cases:
  obtains (ignored) "miner_block_commit al s p len = s"
  | (old) b where "miner_block_commit al s p len =
        s\<lparr>m_mempool := the (mempool_remove_included (Some (m_mempool s)) (Some (txs b)))\<rparr>" "index b < m_next_index s"
  | (tip) b where "miner_block_commit al s p len =
        set_tip (s\<lparr>m_mempool := the (mempool_remove_included (Some (m_mempool s)) (Some (txs b)))\<rparr>)
          (index b + 1) (block_hash b)" "m_next_index s \<le> index b"
proof (cases "\<exists>q b h. p = Some q \<and> len \<noteq> 0 \<and> al (len + 1) \<and> block_from_csv al (Some (cstr (take len q))) = Inr b
    \<and> calculate_block_hash al (Some b) = Inr h")
  case True
  then obtain q b h where b: "p = Some q" "len \<noteq> 0" "al (len + 1)" "block_from_csv al (Some (cstr (take len q))) = Inr b"
    "calculate_block_hash al (Some b) = Inr h" by blast
  with old [of b] tip [of b] calculate_block_hash_Inr [OF b(5)] show thesis
    by (cases "m_next_index s \<le> index b") (simp_all add: miner_block_commit_def Let_def not_le)
next
  case False
  then have "miner_block_commit al s p len = s"
    by (auto simp: miner_block_commit_def split: option.split sum.split)
  then show thesis by (rule ignored)
qed

lemma tx_submit_cases:
  obtains (refused) rc where "handle_tx_submit al s p len fd = (s, tx_ack s fd (error_reply rc))" "rc \<noteq> PROJECT_OK"
  | (added) pool where "validate_transaction al (Some (submitted_text p len)) = PROJECT_OK"
      "mempool_add (Some (m_mempool s)) (Some (submitted_text p len)) = (PROJECT_OK, Some pool)"
      "handle_tx_submit al s p len fd = (s\<lparr>m_mempool := pool\<rparr>, tx_ack s fd ''OK'')"
proof (cases "validate_transaction al (Some (submitted_text p len)) = PROJECT_OK")
  case valid: True
  obtain rc q where add: "mempool_add (Some (m_mempool s)) (Some (submitted_text p len)) = (rc, q)" by fastforce
  show thesis
  proof (cases "rc = PROJECT_OK")
    case True
    then obtain pool where "q = Some pool" using add by (auto simp: mempool_add_def split: if_splits)
    with True valid add show thesis by (intro added) (simp_all add: handle_tx_submit_def tx_ack_def)
  next
    case False
    then have "q = Some (m_mempool s)" using add by (auto simp: mempool_add_def split: if_splits)
    with False valid add show thesis by (intro refused [of rc]) (simp_all add: handle_tx_submit_def tx_ack_def)
  qed
next
  case False
  then show thesis by (intro refused) (simp_all add: handle_tx_submit_def)
qed

lemma resync_tip_kept [simp]: "tip_kept s (resync_from_node al net conns s)"
  by (cases rule: resync_cases [of al net conns s]) simp_all

lemma block_commit_tip_kept [simp]: "tip_kept s (miner_block_commit al s p len)"
  by (cases rule: miner_block_commit_cases [of al s p len]) simp_all

lemma tx_submit_tip_kept [simp]: "tip_kept s (fst (handle_tx_submit al s p len fd))"
  by (cases rule: tx_submit_cases [of al s p len fd]) simp_all

lemma miner_message_tip_kept: "tip_kept s (fst (miner_handle_message al net conns s h p fd))"
  by (simp add: miner_handle_message_def Let_def)

lemma communication_turn_cases:
  obtains (idle) "communication_turn e s = (s, [])"
  | (handled) h p fd where
      "communication_turn e s = miner_handle_message (ce_alloc e) (ce_net e) (ce_conns e) s h p fd"
      "ipc_recv (ce_alloc e) (ce_reads e) (ce_bytes e) = Inr (h, p)"
proof (cases "\<exists>fd. ipc_server_accept (ce_accept e) = Some (Inr fd)")
  case True
  then obtain fd where fd: "ipc_server_accept (ce_accept e) = Some (Inr fd)" by blast
  show thesis
  proof (cases "m_shutting_down s \<or> \<not> ce_ready e \<or> (\<exists>rc. ipc_recv (ce_alloc e) (ce_reads e) (ce_bytes e) = Inl rc)")
    case True
    with fd show thesis by (intro idle) (auto simp: communication_turn_def)
  next
    case False
    then obtain h p where "ipc_recv (ce_alloc e) (ce_reads e) (ce_bytes e) = Inr (h, p)"
      by (metis old.sum.exhaust prod.exhaust)
    with fd False show thesis by (intro handled [of h p fd]) (simp_all add: communication_turn_def)
  qed
next
  case False
  then have "communication_turn e s = (s, [])" by (auto simp: communication_turn_def split: option.split sum.split)
  then show thesis by (rule idle)
qed

lemma comm_step_tip_kept: "tip_kept s (comm_step s ev)"
proof (cases ev)
  case (Turn e)
  then show ?thesis
    using miner_message_tip_kept by (cases rule: communication_turn_cases [of e s]) simp_all
next
  case Signal
  then show ?thesis by (simp add: handle_termination_signal_def)
qed

interpretation tip: flagged_view m_restart_mining miner_tip comm_step
  using comm_step_tip_kept by unfold_locales (simp_all add: tip_kept_def)

text \<open>A wait that was not aborted has not missed a change of the tip.\<close>

lemma wait_not_aborted:
  "wait_or_abort ws s = (False, s') \<Longrightarrow> miner_tip s' = miner_tip s \<and> \<not> m_restart_mining s' \<and> \<not> m_shutting_down s'
     \<and> \<not> m_restart_mining s"
proof (induction ws s rule: wait_or_abort.induct)
  case (2 w ws s)
  let ?s1 = "comm_run s (wake_events w)"
  have idle: "\<not> m_restart_mining s" using 2(2) by (simp split: if_splits)
  have "miner_tip s' = miner_tip ?s1 \<and> \<not> m_restart_mining s' \<and> \<not> m_shutting_down s' \<and> \<not> m_restart_mining ?s1"
  proof (cases "wake_timeout w")
    case True
    then show ?thesis using 2(2) by (auto simp: Let_def split: if_splits)
  next
    case False
    then show ?thesis using 2 by (simp add: Let_def split: if_splits)
  qed
  with tip.run_unflagged [of s "wake_events w"] idle show ?case by simp
qed simp

section \<open>Invariant\<close>

text \<open>The pool only holds transactions that passed the validation, and the tip is a hash.\<close>

definition miner_inv :: "miner_state_t \<Rightarrow> bool" where
  "miner_inv s \<longleftrightarrow> pool_wf (m_mempool s) \<and> list_all tx_wellformed (pool_live (m_mempool s))
     \<and> hash_ok (m_previous_hash s) \<and> 0 < m_difficulty s"

lemma hash_ok_zero [simp]: "hash_ok zero_hash"
  by (simp add: hash_ok_def zero_hash_def c_islower_hex_def c_isdigit_def code_def list_all_iff)

lemma set_tip_inv [simp]: "miner_inv s \<Longrightarrow> hash_ok h \<Longrightarrow> miner_inv (set_tip s i h)"
  by (simp add: miner_inv_def set_tip_def)

lemma resync_inv [simp]: "miner_inv s \<Longrightarrow> miner_inv (resync_from_node al net conns s)"
  by (cases rule: resync_cases [of al net conns s]) simp_all

lemma remove_included_inv:
  assumes "miner_inv s"
  shows "miner_inv (s\<lparr>m_mempool := the (mempool_remove_included (Some (m_mempool s)) (Some ts))\<rparr>)"
proof -
  obtain p where p: "mempool_remove_included (Some (m_mempool s)) (Some ts) = Some p"
    by (simp add: mempool_remove_included_def)
  with remove_included_spec [OF _ p] assms have "pool_wf p" "set (pool_live p) \<subseteq> set (pool_live (m_mempool s))"
    by (auto simp: miner_inv_def dest!: arg_cong [of _ _ set_mset])
  with assms p show ?thesis by (auto simp: miner_inv_def list_all_iff)
qed

lemma block_commit_inv: "miner_inv s \<Longrightarrow> miner_inv (miner_block_commit al s p len)"
  by (cases rule: miner_block_commit_cases [of al s p len]) (simp_all add: remove_included_inv)

lemma tx_submit_inv:
  assumes "miner_inv s"
  shows "miner_inv (fst (handle_tx_submit al s p len fd))"
proof (cases rule: tx_submit_cases [of al s p len fd])
  case (added pool)
  with assms mempool_add_OK [OF _ added(2)] validate_transaction_OK [OF added(1)] show ?thesis
    by (auto simp: miner_inv_def)
qed (use assms in simp)

lemma comm_step_inv: "miner_inv s \<Longrightarrow> miner_inv (comm_step s ev)"
proof (cases ev)
  case (Turn e)
  have "miner_inv s \<Longrightarrow> miner_inv (fst (miner_handle_message al net conns s h p fd))" for al net conns h p fd
    by (simp add: miner_handle_message_def Let_def tx_submit_inv block_commit_inv) (simp add: miner_inv_def)
  then show "miner_inv s \<Longrightarrow> miner_inv (comm_step s ev)"
    using Turn by (cases rule: communication_turn_cases [of e s]) simp_all
next
  case Signal
  then show "miner_inv s \<Longrightarrow> miner_inv (comm_step s ev)" by (simp add: handle_termination_signal_def miner_inv_def)
qed

lemma comm_run_inv: "miner_inv s \<Longrightarrow> miner_inv (comm_run s evs)"
  by (induction evs arbitrary: s) (simp_all add: comm_step_inv)

lemma wait_inv: "miner_inv s \<Longrightarrow> miner_inv (snd (wait_or_abort ws s))"
  by (induction ws s rule: wait_or_abort.induct) (simp_all add: Let_def comm_run_inv)

lemma miner_start_inv: "miner_start ok argv = Some s \<Longrightarrow> miner_inv s"
  using mempool_init_wf
  by (auto simp: miner_start_def miner_inv_def split: list.splits prod.splits if_splits)
    (auto simp: mempool_init_def pool_wf_def pool_live_def split: if_splits)

section \<open>Candidates\<close>

lemma build_candidate_Some:
  assumes "build_candidate al i prev time rand batch = Some b" "batch \<noteq> []"
  shows "b = \<lparr>index = i, timestamp = time, previous_hash = prev, merkle_root = merkle_root_of batch, nonce = rand,
              transactions = map Some batch\<rparr>" "length batch \<le> MAX_TRANSACTIONS_PER_BLOCK"
proof -
  let ?c = "block_zero\<lparr>index := i, timestamp := time, nonce := rand, previous_hash := prev\<rparr>"
  obtain added where a: "add_transactions al (Some ?c) (map Some batch) = (PROJECT_OK, added)"
    using assms(1) by (auto simp: build_candidate_def Let_def split: prod.splits if_splits)
  note ok = add_transactions_OK [OF a]
  have added: "added = Some (?c\<lparr>transactions := map Some batch\<rparr>)" using ok(1) by (simp add: block_zero_def)
  show "length batch \<le> MAX_TRANSACTIONS_PER_BLOCK" using ok(3) by (simp add: block_zero_def)
  have root: "calculate_merkle_root al (Some (map Some batch)) \<in> {Inr (merkle_root_of batch), Inl ERR_MEMORY_ALLOCATION}"
    using calculate_merkle_root_cases [of "map Some batch" al] assms(2) by (simp add: comp_def)
  with assms(1) a added show "b = \<lparr>index = i, timestamp = time, previous_hash = prev, merkle_root = merkle_root_of batch,
      nonce = rand, transactions = map Some batch\<rparr>"
    by (auto simp: build_candidate_def Let_def block_zero_def)
qed

lemma build_candidate_total:
  assumes "alloc_total al" "batch \<noteq> []" "list_all tx_storable batch" "length batch \<le> MAX_TRANSACTIONS_PER_BLOCK"
  shows "\<exists>b. build_candidate al i prev time rand batch = Some b"
proof -
  let ?c = "block_zero\<lparr>index := i, timestamp := time, nonce := rand, previous_hash := prev\<rparr>"
  have "list_all tx_ptr_ok (map Some batch)" using assms(3) by (simp add: list_all_iff tx_ptr_ok_def)
  then have "add_transactions al (Some ?c) (map Some batch) = (PROJECT_OK, Some (?c\<lparr>transactions := map Some batch\<rparr>))"
    using add_transactions_total [OF assms(1), of "map Some batch" ?c] assms(4) by (simp add: block_zero_def)
  moreover have "calculate_merkle_root al (Some (map Some batch)) = Inr (merkle_root_of batch)"
    using calculate_merkle_root_cases [of "map Some batch" al] assms(1,2) by (simp add: comp_def)
  ultimately show ?thesis by (simp add: build_candidate_def Let_def)
qed

lemma candidate_block_ok:
  assumes "batch \<noteq> []" "length batch \<le> MAX_TRANSACTIONS_PER_BLOCK" "list_all tx_storable batch"
    "list_all tx_wellformed batch" "hash_ok prev"
    "b = \<lparr>index = i, timestamp = time, previous_hash = prev, merkle_root = merkle_root_of batch, nonce = rand,
          transactions = map Some batch\<rparr>"
  shows "block_ok b" "txs b = batch"
  using assms merkle_root_of_ok [of batch]
  by (auto simp: block_ok_def structure_ok_def payload_ok_def list_all_iff comp_def)

text \<open>The snapshot of a pool under the invariant is a batch for a block.\<close>

lemma snapshot_batch:
  assumes "miner_inv s" "batch = mempool_snapshot (Some (m_mempool s)) MAX_TRANSACTIONS_PER_BLOCK"
  shows "list_all tx_storable batch" "list_all tx_wellformed batch" "length batch \<le> MAX_TRANSACTIONS_PER_BLOCK"
    "batch = take MAX_TRANSACTIONS_PER_BLOCK (pool_live (m_mempool s))"
  using assms mempool_snapshot_take [of "m_mempool s"]
  by (auto simp: miner_inv_def pool_wf_def list_all_iff dest: in_set_takeD)

lemma attempt_proposes:
  assumes "miner_inv s" "mining_attempt e s = Continues s' (Some b)"
  shows "block_ok b" "index b = m_next_index s'" "previous_hash b = m_previous_hash s'" "timestamp b = me_time e"
    "\<not> m_restart_mining s'" "\<not> m_shutting_down s'" "list_all tx_wellformed (txs b)" "txs b \<noteq> []"
proof -
  define s2 where "s2 = comm_run (s\<lparr>m_restart_mining := False\<rparr>) (me_before e)"
  define batch where "batch = mempool_snapshot (Some (m_mempool s2)) MAX_TRANSACTIONS_PER_BLOCK"
  have inv: "miner_inv s2" using comm_run_inv assms(1) by (simp add: s2_def miner_inv_def)
  have ne: "batch \<noteq> []" and b: "build_candidate (me_alloc e) (m_next_index s) (m_previous_hash s) (me_time e)
      (of_nat (me_nonce e)) batch = Some b"
    and w: "wait_or_abort (me_wakes e) (comm_run s2 (me_building e)) = (False, s')"
    using assms(2) unfolding mining_attempt_def s2_def batch_def
    by (auto simp: Let_def split: if_splits option.splits prod.splits)
  note batch = snapshot_batch [OF inv batch_def]
  have tip: "miner_tip s' = miner_tip s"
    using wait_not_aborted [OF w] tip.run_unflagged [of s2 "me_building e"]
      tip.run_unflagged [of "s\<lparr>m_restart_mining := False\<rparr>" "me_before e", folded s2_def] by simp
  note fields = build_candidate_Some(1) [OF b ne]
  have "hash_ok (m_previous_hash s)" using assms(1) by (simp add: miner_inv_def)
  from candidate_block_ok [OF ne batch(3,1,2) this fields] show "block_ok b" "list_all tx_wellformed (txs b)" "txs b \<noteq> []"
    using batch(2) ne by simp_all
  show "index b = m_next_index s'" "previous_hash b = m_previous_hash s'" "timestamp b = me_time e"
    using fields tip by simp_all
  show "\<not> m_restart_mining s'" "\<not> m_shutting_down s'" using wait_not_aborted [OF w] by simp_all
qed

lemma attempt_inv:
  assumes "miner_inv s" "mining_attempt e s = Continues s' p"
  shows "miner_inv s'"
proof -
  have inv: "miner_inv (comm_run (s\<lparr>m_restart_mining := False\<rparr>) evs)" for evs
    using comm_run_inv assms(1) by (simp add: miner_inv_def)
  show ?thesis
    using assms(2) inv wait_inv [OF comm_run_inv [OF inv]] comm_run_inv [OF inv]
    unfolding mining_attempt_def
    by (auto simp: Let_def split: if_splits option.splits prod.splits) (metis snd_conv)+
qed

section \<open>A miner and the coordinator\<close>

text \<open>The coordinator can be reached, and a connection is served by a node in state \<open>n\<close> without failing calls.\<close>

definition node_reachable :: "net \<Rightarrow> string \<Rightarrow> bool" where
  "node_reachable net dir \<longleftrightarrow>
     (\<exists>path fd. ipc_build_socket_path (Some dir) (Some NODE_SOCK_FORMAT) 0 MAX_SOCKET_PATH_LEN = Inr path
                \<and> ipc_connect (net path) (Some path) = Inr fd)"

definition served_by :: "worker_env \<Rightarrow> node_t \<Rightarrow> connection \<Rightarrow> bool" where
  "served_by e n conn \<longleftrightarrow> no_errors (conn_writes conn) \<and> no_errors (conn_reads conn)
     \<and> (\<exists>sc fd. no_errors sc \<and> conn_peer conn = (\<lambda>bytes. snd (node_serve e sc fd n bytes)))"

lemma query_node_answer:
  assumes "node_reachable net dir" "served_by (al, nnet, r) n conn" "alloc_total al"
    "length payload \<le> MAX_PAYLOAD_SIZE" "message_ok m'"
    "\<And>fd m. message_ok m \<Longrightarrow> msg_type (fst m) = message_code kind \<Longrightarrow> snd m = payload \<Longrightarrow>
       snd (handle_message al nnet r n (queued fd m)) = [Reply fd m']"
  shows "query_node al net conn dir kind (Some payload) = Inr (fst m', payload_ptr (snd m'))"
proof -
  obtain sc fd where sc: "no_errors sc" "conn_peer conn = (\<lambda>bytes. snd (node_serve (al, nnet, r) sc fd n bytes))"
    and w: "no_errors (conn_writes conn)" "no_errors (conn_reads conn)"
    using assms(2) by (auto simp: served_by_def)
  obtain m where m: "ipc_message kind 0 (Some payload) (length payload) = Inr m"
    using assms(4) by (simp add: ipc_message_def)
  have ok: "message_ok m" "msg_type (fst m) = message_code kind" "snd m = payload"
    using ipc_message_ok [OF m] by simp_all
  have send: "ipc_send (conn_writes conn) kind 0 (Some payload) (length payload) = (PROJECT_OK, wire_bytes m)"
    using m w(1) by (intro ipc_send_eq) simp_all
  obtain n' outs where h: "handle_message al nnet r n (queued fd m) = (n', outs)" by fastforce
  have "snd (node_serve (al, nnet, r) sc fd n (wire_bytes m)) = wire_bytes m'"
    using node_serve_message [OF ok(1) sc(1) _ h] alloc_totalD [OF assms(3)] assms(6) [OF ok, of fd] h by simp
  moreover have "ipc_recv al (conn_reads conn) (wire_bytes m' @ []) = Inr (fst m', payload_ptr (snd m'))"
    using assms(5) w(2) alloc_totalD [OF assms(3)] by (intro ipc_recv_eq)
  ultimately show ?thesis
    using assms(1,4) send sc(2) by (auto simp: query_node_def node_reachable_def)
qed

text \<open>The reply a node builds from a text.\<close>

definition ok_reply :: "node_t \<Rightarrow> string \<Rightarrow> message_header_t \<times> char list" where
  "ok_reply n body =
     (\<lparr>magic = PROTOCOL_MAGIC, version = PROTOCOL_VERSION, msg_type = message_code MSG_RESPONSE_OK,
       sender_id = of_int (n_id n), payload_len = of_nat (length body)\<rparr>, body)"

lemma ok_reply_ok:
  assumes "length body \<le> MAX_PAYLOAD_SIZE"
  shows "message_ok (ok_reply n body)" "unat (payload_len (fst (ok_reply n body))) = length body" "snd (ok_reply n body) = body"
  using assms by (simp_all add: ok_reply_def message_ok_def unat_of_nat)

lemma reply_ok_reply:
  "body \<noteq> [] \<Longrightarrow> length body \<le> MAX_PAYLOAD_SIZE \<Longrightarrow>
   reply n (queued fd m) MSG_RESPONSE_OK (Some body) (length body) = [Reply fd (ok_reply n body)]"
  using reply_fits [of "length body" n "queued fd m" MSG_RESPONSE_OK body] by (simp add: ok_reply_def)

lemma query_height_learns:
  assumes "node_reachable net (m_runtime_dir s)" "served_by (al, nnet, r) n conn" "alloc_total al"
    "length (node_chain n) < 2 ^ 63"
  shows "query_height al net conn s = Some (int (length (node_chain n)))"
proof -
  let ?t = "fmt_u (length (node_chain n))"
  have len: "length ?t \<le> 20" using assms(4) by (intro length_fmt_u64) simp
  then have ok: "message_ok (ok_reply n ?t)" "unat (payload_len (fst (ok_reply n ?t))) = length ?t" "snd (ok_reply n ?t) = ?t"
    using ok_reply_ok [of ?t n] by simp_all
  have "query_node al net conn (m_runtime_dir s) MSG_QUERY_HEIGHT (Some []) =
      Inr (fst (ok_reply n ?t), payload_ptr (snd (ok_reply n ?t)))"
  proof (rule query_node_answer [OF assms(1-3) _ ok(1)])
    fix fd and m :: "message_header_t \<times> char list" assume "msg_type (fst m) = message_code MSG_QUERY_HEIGHT"
    then show "snd (handle_message al nnet r n (queued fd m)) = [Reply fd (ok_reply n ?t)]"
      using assms(4) len
      by (simp add: handle_message_def Let_def handle_query_height_def unat_of_nat_u64 reply_ok_reply)
  qed simp
  moreover have "length ?t < 31" "payload_len (fst (ok_reply n ?t)) \<noteq> 0"
    using len ok(2) by (auto simp: unat_eq_0 [symmetric])
  ultimately show ?thesis
    using assms(4) ok strtol_fmt_u [of "length (node_chain n)"] by (simp add: query_height_def payload_ptr_def fmt_u_nonempty [symmetric])
qed

lemma query_tip_learns:
  assumes "node_reachable net (m_runtime_dir s)" "served_by (al, nnet, r) n conn" "alloc_total al"
    "chain_valid (node_chain n)" "length (node_chain n) < 2 ^ 63" "t = last (node_chain n)"
    "block_printable t" "separable (txs t)" "block_cstrings t"
  shows "query_tip al net conn s (int (length (node_chain n))) = Some (of_nat (length (node_chain n)), block_hash t)"
proof -
  let ?i = "length (node_chain n) - 1" and ?args = "''--index '' @ fmt_u (length (node_chain n) - 1)"
  have ne: "node_chain n \<noteq> []" using assms(4) by (simp add: chain_valid_def)
  have "?i < 2 ^ 64" using assms(5) by (rule less_trans [OF le_less_trans [OF diff_le_self]]) simp
  then have l: "length (fmt_u ?i) \<le> 20" by (rule length_fmt_u64)
  have args: "take 31 (''--index '' @ fmt_d (int (length (node_chain n)) - 1)) = ?args"
    using l ne fmt_d_nat [of ?i] by (simp add: of_nat_diff Suc_leI)
  have len: "length (csv_line t) \<le> MAX_PAYLOAD_SIZE" using length_csv_line_le [OF assms(7)] by simp
  note ok = ok_reply_ok [OF len, of n]
  have "query_node al net conn (m_runtime_dir s) MSG_QUERY_BLOCK (Some ?args) =
      Inr (fst (ok_reply n (csv_line t)), payload_ptr (snd (ok_reply n (csv_line t))))"
  proof (rule query_node_answer [OF assms(1-3) _ ok(1)])
    fix fd m assume m: "message_ok m" "msg_type (fst m) = message_code MSG_QUERY_BLOCK" "snd m = ?args"
    have "payload_string (queued fd m) = ?args" using m by (subst queued_payload_string) simp_all
    moreover have "scan_index_query ?args = Some (of_nat ?i)" using assms(5) by (intro scan_index_fmt) simp
    moreover have "blockchain_get_by_index (Some (n_chain n)) (of_nat ?i) = Some ?i"
      using assms(4,5) ne by (intro get_by_index_valid) auto
    moreover have "block_to_csv al (Some (node_chain n ! ?i)) = Inr (csv_line t)"
      using assms(3,6,7) ne by (simp add: block_to_csv_Inr alloc_totalD last_conv_nth)
    ultimately show "snd (handle_message al nnet r n (queued fd m)) = [Reply fd (ok_reply n (csv_line t))]"
      using m(2) len assms(3) by (simp add: handle_message_def Let_def handle_query_block_def alloc_totalD reply_ok_reply)
  next
    show "length ?args \<le> MAX_PAYLOAD_SIZE" using l by simp
  qed
  moreover have "block_from_csv al (Some (csv_line t)) = Inr t"
    using block_from_csv_line [OF assms(3,7,8), of "[]"] by simp
  moreover have "is_cstring (csv_line t)" using assms(7,9) by (rule csv_line_cstring)
  moreover have "calculate_block_hash al (Some t) = Inr (block_hash t)"
    using block_ok_hashable [of t] assms(3,4,6) ne
    by (simp add: calculate_block_hash_eq alloc_totalD chain_valid_def list_all_iff)
  moreover have "index t + 1 = of_nat (length (node_chain n))"
    using chain_valid_last_index [OF assms(4)] assms(6) ne by (metis Suc_pred' length_greater_0_conv of_nat_Suc add.commute)
  moreover have "payload_len (fst (ok_reply n (csv_line t))) \<noteq> 0" using ok(2) by (auto simp: unat_eq_0 [symmetric])
  ultimately show ?thesis
    using args ok assms(3) by (simp add: query_tip_def payload_ptr_def alloc_totalD)
qed

text \<open>The miner's view is the tip of the chain of a node.\<close>

definition view_agrees :: "miner_state_t \<Rightarrow> node_t \<Rightarrow> bool" where
  "view_agrees s n \<longleftrightarrow> m_next_index s = of_nat (length (node_chain n)) \<and> m_previous_hash s = block_hash (last (node_chain n))"

text \<open>An attempt during which the other thread has nothing to do, with a lucky roll of the dice.\<close>

definition lucky :: "mining_env \<Rightarrow> miner_state_t \<Rightarrow> bool" where
  "lucky e s \<longleftrightarrow> me_before e = [] \<and> me_building e = [] \<and> me_wakes e = [] \<and> int (me_dice e) mod m_difficulty s = 0"

lemma lucky_attempt:
  assumes "miner_inv s" "\<not> m_shutting_down s" "lucky e s" "alloc_total (me_alloc e)" "pool_live (m_mempool s) \<noteq> []"
  shows "\<exists>b. mining_attempt e s = Continues (s\<lparr>m_restart_mining := False\<rparr>) (Some b)
     \<and> txs b = mempool_snapshot (Some (m_mempool s)) MAX_TRANSACTIONS_PER_BLOCK"
proof -
  let ?batch = "mempool_snapshot (Some (m_mempool s)) MAX_TRANSACTIONS_PER_BLOCK"
  note batch = snapshot_batch [OF assms(1) refl]
  have ne: "?batch \<noteq> []" using batch(4) assms(5) by simp
  obtain b where b: "build_candidate (me_alloc e) (m_next_index s) (m_previous_hash s) (me_time e)
      (of_nat (me_nonce e)) ?batch = Some b"
    using build_candidate_total [OF assms(4) ne batch(1,3)] by blast
  have "txs b = ?batch" using build_candidate_Some(1) [OF b ne] by (simp add: comp_def)
  with b ne assms(1,2,3) show ?thesis by (simp add: mining_attempt_def Let_def lucky_def miner_inv_def)
qed

lemma candidate_links:
  assumes "chain_valid (node_chain n)" "view_agrees s n" "block_ok b" "index b = m_next_index s"
    "previous_hash b = m_previous_hash s" "timestamp (last (node_chain n)) \<le> timestamp b" "length (node_chain n) < 2 ^ 63"
  shows "fits_next (node_chain n) b" "index b \<noteq> 0" "chain_valid (node_chain n @ [b])"
proof -
  have ne: "node_chain n \<noteq> []" using assms(1) by (simp add: chain_valid_def)
  have i: "index (last (node_chain n)) + 1 = of_nat (length (node_chain n))"
    using chain_valid_last_index [OF assms(1)] ne by (metis Suc_pred' length_greater_0_conv of_nat_Suc add.commute)
  then have "link_ok (last (node_chain n)) b" using assms by (simp add: link_ok_def view_agrees_def)
  then show "fits_next (node_chain n) b" "chain_valid (node_chain n @ [b])"
    using assms(1,3) ne by (simp_all add: fits_next_def chain_valid_snoc)
  have "unat (of_nat (length (node_chain n)) :: u64) = length (node_chain n)"
    using assms(7) by (intro unat_of_nat_u64) simp
  then show "index b \<noteq> 0" using assms(2,4) ne by (auto simp: view_agrees_def)
qed

lemma proposal_served:
  assumes "alloc_total al" "chain_valid (node_chain n)" "n_coordinator n" "fits_next (node_chain n) b" "index b \<noteq> 0"
    "node_reachable net (m_runtime_dir s)" "no_errors (conn_writes conn)" "no_errors sc"
  shows "\<exists>path bytes n'. propose_block al net conn s b = [Proposal path bytes]
     \<and> node_serve (al, nnet, r) sc fd n bytes = (n', wire_bytes (ok_reply n' []))
     \<and> node_chain n' = node_chain n @ [b]"
proof -
  have ne: "node_chain n \<noteq> []" "block_ok (last (node_chain n))"
    using assms(2) by (auto simp: chain_valid_def list_all_iff)
  have "block_ok b" using assms(4) by (simp add: fits_next_def)
  with block_ok_printable assms(5) have p: "block_printable b" "separable (txs b)" "block_cstrings b" by blast+
  have len: "length (csv_line b) \<le> MAX_PAYLOAD_SIZE" using length_csv_line_le [OF p(1)] by simp
  obtain m where m: "ipc_message MSG_BLOCK_PROPOSAL (of_int (m_id s)) (Some (csv_line b)) (length (csv_line b)) = Inr m"
    using len by (simp add: ipc_message_def)
  have ok: "message_ok m" "msg_type (fst m) = message_code MSG_BLOCK_PROPOSAL" "snd m = csv_line b"
    using ipc_message_ok [OF m] by simp_all
  have send: "ipc_send (conn_writes conn) MSG_BLOCK_PROPOSAL (of_int (m_id s)) (Some (csv_line b)) (length (csv_line b)) =
      (PROJECT_OK, wire_bytes m)"
    using m assms(7) by (intro ipc_send_eq) simp_all
  have "payload_string (queued fd m) = csv_line b" "msg_len (queued fd m) \<noteq> 0"
    using queued_payload_string [OF ok(1)] csv_line_cstring [OF p(1,3)] ok by (simp_all add: message_ok_def)
  then obtain n' where n': "handle_block_proposal al nnet n (queued fd m) =
      (n', broadcast_commit al nnet n' b @ reply n' (queued fd m) MSG_RESPONSE_OK None 0)" "node_chain n' = node_chain n @ [b]"
    using proposal_accepted [OF assms(1,4) ne p(1,2), of "queued fd m" nnet] by metis
  have "node_serve (al, nnet, r) sc fd n (wire_bytes m) =
      (n', reply_bytes fd (broadcast_commit al nnet n' b @ reply n' (queued fd m) MSG_RESPONSE_OK None 0))"
    using ok(2) n'(1) assms(1,3,8)
    by (intro node_serve_message [OF ok(1)]) (simp_all add: handle_message_def Let_def alloc_totalD)
  moreover have "propose_block al net conn s b = [Proposal path (wire_bytes m)]"
    if "ipc_build_socket_path (Some (m_runtime_dir s)) (Some NODE_SOCK_FORMAT) 0 MAX_SOCKET_PATH_LEN = Inr path"
      "ipc_connect (net path) (Some path) = Inr fd'" for path fd'
  proof -
    have "block_to_csv al (Some b) = Inr (csv_line b)" using p(1) assms(1) by (simp add: block_to_csv_Inr alloc_totalD)
    with that send len show ?thesis by (simp add: propose_block_def)
  qed
  moreover have "reply n' (queued fd m) MSG_RESPONSE_OK None 0 = [Reply fd (ok_reply n' [])]"
    by (simp add: reply_def ipc_message_def ok_reply_def)
  ultimately show ?thesis using assms(6) n'(2) by (auto simp: node_reachable_def)
qed

lemma commit_advances:
  assumes "alloc_total al" "miner_inv s" "block_printable b" "separable (txs b)" "block_cstrings b" "hashable b"
    "m_next_index s \<le> index b"
  shows "miner_block_commit al s (Some (csv_line b)) (length (csv_line b)) =
    set_tip (s\<lparr>m_mempool := pool_drop (m_mempool s) (txs b)\<rparr>) (index b + 1) (block_hash b)"
  using assms block_from_csv_line [OF assms(1,3,4), of "[]"] csv_line_cstring [OF assms(3,5)]
  by (simp add: miner_block_commit_def alloc_totalD calculate_block_hash_eq Let_def pool_drop_def)

section \<open>A small miner\<close>

definition example_miner :: "u64 \<Rightarrow> string \<Rightarrow> miner_state_t" where
  "example_miner i h =
     \<lparr>m_id = 2, m_runtime_dir = ''/tmp/x'', m_difficulty = 1,
      m_mempool = \<lparr>pool_slots = example_tx # replicate 255 [], pool_count = 1\<rparr>, m_next_index = i, m_previous_hash = h,
      m_restart_mining = False, m_shutting_down = False\<rparr>"

definition open_net :: net where
  "open_net path =
     \<lparr>env_unlink = UNLINKED, env_stat_ok = False, env_socket = 4, env_bind = BOUND, env_listen = True, env_connect = True\<rparr>"

definition example_conn :: "node_t \<Rightarrow> connection" where
  "example_conn n = \<lparr>conn_writes = [SYS_moves 5], conn_reads = [SYS_eintr],
     conn_peer = (\<lambda>bytes. snd (node_serve (no_oom, example_net, None) [] 9 n bytes))\<rparr>"

definition example_mining :: mining_env where
  "example_mining =
     \<lparr>me_alloc = no_oom, me_net = open_net, me_conn = example_conn (example_node 0 [example_genesis]), me_before = [],
      me_building = [], me_wakes = [], me_time = timestamp example_genesis, me_nonce = 7, me_dice = 3\<rparr>"

lemma example_reachable: "node_reachable open_net (m_runtime_dir (example_miner i h))"
  by (simp add: node_reachable_def example_miner_def open_net_def ipc_build_socket_path_def ipc_connect_def Let_def
      fmt_d_def fmt_u.simps digit_char_def)

lemma example_served: "served_by (no_oom, example_net, None) n (example_conn n)"
  unfolding served_by_def example_conn_def by (auto intro: exI [of _ "[]"])

lemma example_miner_inv: "hash_ok h \<Longrightarrow> miner_inv (example_miner i h)"
  using example_tx_ok by (simp add: miner_inv_def example_miner_def pool_wf_def pool_live_def)

section \<open>Properties\<close>



text \<open>
  C15. A late miner finds the tip: when the coordinator can be reached and no call fails, the two
  queries of \<open>resync_from_node\<close> leave the miner with the height of the coordinator's chain as next
  index and the hash of its last block as previous hash, and with the flag that restarts an attempt.
\<close>

theorem resync_learns_tip:
  assumes "node_reachable net (m_runtime_dir s)" "served_by (al, nnet, r) n c1" "served_by (al, nnet, r) n c2"
    "alloc_total al" "chain_valid (node_chain n)" "length (node_chain n) < 2 ^ 63" "t = last (node_chain n)"
    "block_printable t" "separable (txs t)" "block_cstrings t"
  shows "resync_from_node al net (c1, c2) s =
     s\<lparr>m_next_index := of_nat (length (node_chain n)), m_previous_hash := block_hash t, m_restart_mining := True\<rparr>"
proof -
  have "node_chain n \<noteq> []" using assms(5) by (simp add: chain_valid_def)
  then show ?thesis
    using query_height_learns [OF assms(1,2,4,6)] query_tip_learns [OF assms(1,3,4-10)]
    by (simp add: resync_from_node_def set_tip_def)
qed

theorem resync_learns_tip_witness:
  "m_next_index (resync_from_node no_oom open_net
      (example_conn (example_node 0 [example_genesis, example_block]), example_conn (example_node 0 [example_genesis, example_block]))
      (example_miner 0 zero_hash)) = 2"
  using resync_learns_tip [OF example_reachable example_served example_served,
      of "example_node 0 [example_genesis, example_block]" example_block 0 zero_hash] example_chain_valid example_printable
  by simp

text \<open>
  C7. A round of mining makes progress: a miner whose view is the tip of the coordinator's valid chain
  and that has pending transactions proposes, in an undisturbed attempt with a lucky roll of the dice
  and a clock that has not gone back, a block that the coordinator appends and confirms; when the
  commit of this block reaches the miner, the transactions of the block leave its pool, everything
  else stays, and its view is the new tip, so that the next round can start.
\<close>

theorem mining_round_progress:
  assumes "alloc_total (me_alloc e)" "chain_valid (node_chain n)" "n_coordinator n" "length (node_chain n) < 2 ^ 63"
    "miner_inv s" "\<not> m_shutting_down s" "view_agrees s n" "pool_live (m_mempool s) \<noteq> []" "lucky e s"
    "timestamp (last (node_chain n)) \<le> me_time e" "node_reachable (me_net e) (m_runtime_dir s)"
    "no_errors (conn_writes (me_conn e))" "no_errors sc"
  shows "\<exists>b s1 path bytes n' s2. mining_attempt e s = Continues s1 (Some b)
    \<and> propose_block (me_alloc e) (me_net e) (me_conn e) s1 b = [Proposal path bytes]
    \<and> node_serve (me_alloc e, nnet, r) sc fd n bytes = (n', wire_bytes (ok_reply n' []))
    \<and> node_chain n' = node_chain n @ [b] \<and> chain_valid (node_chain n')
    \<and> miner_block_commit (me_alloc e) s1 (Some (csv_line b)) (length (csv_line b)) = s2
    \<and> view_agrees s2 n' \<and> miner_inv s2
    \<and> mset (pool_live (m_mempool s2)) = filter_mset (\<lambda>t. t \<notin> set (txs b)) (mset (pool_live (m_mempool s)))
    \<and> size (mset (pool_live (m_mempool s2))) < size (mset (pool_live (m_mempool s)))"
proof -
  let ?s1 = "s\<lparr>m_restart_mining := False\<rparr>"
  obtain b where att: "mining_attempt e s = Continues ?s1 (Some b)"
    and tx: "txs b = mempool_snapshot (Some (m_mempool s)) MAX_TRANSACTIONS_PER_BLOCK"
    using lucky_attempt [OF assms(5,6,9,1,8)] by blast
  note b = attempt_proposes [OF assms(5) att]
  have view: "view_agrees ?s1 n" "miner_inv ?s1" using assms(5,7) by (simp_all add: view_agrees_def miner_inv_def)
  note link = candidate_links [OF assms(2) view(1) b(1-3) _ assms(4)]
  have fits: "fits_next (node_chain n) b" "index b \<noteq> 0" "chain_valid (node_chain n @ [b])"
    using link b(4) assms(10) by simp_all
  have reach: "node_reachable (me_net e) (m_runtime_dir ?s1)" using assms(11) by simp
  obtain path bytes n' where sent: "propose_block (me_alloc e) (me_net e) (me_conn e) ?s1 b = [Proposal path bytes]"
    "node_serve (me_alloc e, nnet, r) sc fd n bytes = (n', wire_bytes (ok_reply n' []))" "node_chain n' = node_chain n @ [b]"
    using proposal_served [OF assms(1-3) fits(1,2) reach assms(12,13)] by blast
  have p: "block_printable b" "separable (txs b)" "block_cstrings b" "hashable b"
    using block_ok_printable [OF b(1) fits(2)] block_ok_hashable [OF b(1)] by simp_all
  let ?s2 = "miner_block_commit (me_alloc e) ?s1 (Some (csv_line b)) (length (csv_line b))"
  have s2: "?s2 = set_tip (?s1\<lparr>m_mempool := pool_drop (m_mempool s) (txs b)\<rparr>) (index b + 1) (block_hash b)"
    using commit_advances [OF assms(1) view(2) p] b(2) by simp
  have wf: "pool_wf (m_mempool s)" using assms(5) by (simp add: miner_inv_def)
  have "view_agrees ?s2 n'" using s2 sent(3) b(2) assms(7) by (simp add: view_agrees_def set_tip_def add.commute)
  moreover have "miner_inv ?s2" using block_commit_inv [OF view(2)] .
  moreover have "mset (pool_live (m_mempool ?s2)) = filter_mset (\<lambda>t. t \<notin> set (txs b)) (mset (pool_live (m_mempool s)))"
    using s2 pool.drop_law [OF wf] by (simp add: set_tip_def)
  moreover have "size (mset (pool_live (m_mempool ?s2))) < size (mset (pool_live (m_mempool s)))"
    using s2 pool.commit_shrinks [OF wf, of MAX_TRANSACTIONS_PER_BLOCK] tx b(8) [folded length_greater_0_conv]
    by (simp add: set_tip_def del: length_greater_0_conv)
  ultimately show ?thesis using att sent fits(3) by metis
qed

theorem mining_round_progress_witness:
  "\<exists>b s1 n' path bytes. mining_attempt example_mining (example_miner 1 (block_hash example_genesis)) = Continues s1 (Some b)
     \<and> propose_block no_oom open_net (example_conn (example_node 0 [example_genesis])) s1 b = [Proposal path bytes]
     \<and> node_serve (no_oom, example_net, None) [] 9 (example_node 0 [example_genesis]) bytes = (n', wire_bytes (ok_reply n' []))
     \<and> node_chain n' = [example_genesis, b]"
proof -
  let ?s = "example_miner 1 (block_hash example_genesis)" and ?n = "example_node 0 [example_genesis]"
  have "miner_inv ?s" by (rule example_miner_inv) simp
  moreover have "node_reachable (me_net example_mining) (m_runtime_dir ?s)"
    using example_reachable by (simp add: example_mining_def)
  moreover have "view_agrees ?s ?n" "pool_live (m_mempool ?s) \<noteq> []" "\<not> m_shutting_down ?s" "lucky example_mining ?s"
    "timestamp (last (node_chain ?n)) \<le> me_time example_mining" "alloc_total (me_alloc example_mining)"
    "no_errors (conn_writes (me_conn example_mining))"
    by (simp_all add: view_agrees_def example_miner_def pool_live_def lucky_def example_mining_def example_conn_def)
  ultimately obtain b s1 path bytes n' where
    "mining_attempt example_mining ?s = Continues s1 (Some b)"
    "propose_block no_oom open_net (example_conn ?n) s1 b = [Proposal path bytes]"
    "node_serve (no_oom, example_net, None) [] 9 ?n bytes = (n', wire_bytes (ok_reply n' []))" "node_chain n' = [example_genesis, b]"
    using mining_round_progress [of example_mining ?n ?s "[]" example_net None 9] example_chain_valid(1)
    by (auto simp: example_mining_def)
  then show ?thesis by blast
qed

end
