(* ===== verification/Client.thy ===== *)
theory Client
  imports Miner
begin

text \<open>
  The client process (\<^verbatim>\<open>client/client.c\<close>): it generates random transactions and submits each to one of
  the miners whose sockets it finds in the runtime directory, in turn. The directory, the sockets,
  the random numbers and the answers of \<open>nanosleep\<close> are arguments; log lines are left out.
\<close>

section \<open>State and arguments\<close>

record client_state_t =
  c_id :: int
  c_frequency :: int
  c_runtime_dir :: string
  c_next_miner :: nat

abbreviation INT_MAX :: int where
  "INT_MAX \<equiv> 2147483647"

definition parse_non_negative_int :: "string ptr \<Rightarrow> project_error_t + int" where
  "parse_non_negative_int str =
     (case str of
        None \<Rightarrow> Inl ERR_INVALID_ARGUMENT
      | Some s \<Rightarrow>
          if s = [] then Inl ERR_INVALID_ARGUMENT
          else (case strtol 10 s of
                  (v, rest, range_error) \<Rightarrow>
                    if range_error \<or> rest = s \<or> rest \<noteq> [] \<or> v < 0 \<or> INT_MAX < v then Inl ERR_INVALID_ARGUMENT
                    else Inr v))"

text \<open>\<open>main\<close> up to the loop; the log file may fail to open.\<close>

definition client_start :: "bool \<Rightarrow> string list \<Rightarrow> client_state_t option" where
  "client_start log_ok argv =
     (case argv of
        [prog, arg1, arg2, arg3] \<Rightarrow>
          (case (parse_non_negative_int (Some arg1), parse_non_negative_int (Some arg3)) of
             (Inr num, Inr freq) \<Rightarrow>
               if 256 \<le> length arg2 then None
               else if \<not> log_ok then None
               else Some \<lparr>c_id = num, c_frequency = freq, c_runtime_dir = arg2, c_next_miner = 0\<rparr>
           | _ \<Rightarrow> None)
      | _ \<Rightarrow> None)"

section \<open>Random transactions\<close>

abbreviation CLIENT_NAME_COUNT :: nat where
  "CLIENT_NAME_COUNT \<equiv> 12"

definition CLIENT_NAMES :: "string list" where
  "CLIENT_NAMES =
     [''Alice'', ''Bob'', ''Charlie'', ''Dave'', ''Eve'', ''Frank'', ''Grace'', ''Heidi'', ''Ivan'', ''Judy'',
      ''Mallory'', ''Oscar'']"

text \<open>
  The random numbers are a list that is consumed from the front. \<open>None\<close> says that the list is used up
  before the function returns: the loop for the receiver has not ended yet.
\<close>

fun pick_receiver :: "nat \<Rightarrow> nat list \<Rightarrow> (nat \<times> nat list) option" where
  "pick_receiver sender [] = None"
| "pick_receiver sender (r # rs) =
     (if r mod CLIENT_NAME_COUNT = sender then pick_receiver sender rs else Some (r mod CLIENT_NAME_COUNT, rs))"

definition transaction_text :: "nat \<Rightarrow> nat \<Rightarrow> nat \<Rightarrow> string" where
  "transaction_text sender receiver amount =
     CLIENT_NAMES ! sender @ '' pays '' @ CLIENT_NAMES ! receiver @ '' '' @ fmt_u amount @ '' coins''"

definition generate_transaction :: "nat \<Rightarrow> nat list \<Rightarrow> ((project_error_t + string) \<times> nat list) option" where
  "generate_transaction out_size rands =
     (if out_size = 0 then Some (Inl ERR_INVALID_ARGUMENT, rands)
      else (case rands of
              [] \<Rightarrow> None
            | r0 # rs \<Rightarrow>
                (let sender = r0 mod CLIENT_NAME_COUNT in
                 case pick_receiver sender rs of
                   None \<Rightarrow> None
                 | Some (receiver, []) \<Rightarrow> None
                 | Some (receiver, r2 # rest) \<Rightarrow>
                     (let line = transaction_text sender receiver (1 + r2 mod 1000) in
                      Some (if out_size \<le> length line then Inl ERR_INVALID_ARGUMENT else Inr line, rest)))))"

section \<open>Finding miners\<close>

abbreviation MAX_DISCOVERED_MINERS :: nat where
  "MAX_DISCOVERED_MINERS \<equiv> 256"

text \<open>\<^verbatim>\<open>%d\<close> of \<open>sscanf\<close> reads as \<open>strtol\<close> does and stores an \<open>int\<close>.\<close>

definition scan_d :: "string \<Rightarrow> (int \<times> string) option" where
  "scan_d s =
     (case strto_scan 10 s of
        None \<Rightarrow> None
      | Some (neg, v, rest) \<Rightarrow> Some (sint (of_int (fst (strtol 10 s)) :: 32 word), rest))"

text \<open>
  \<open>sscanf\<close> with \<^verbatim>\<open>miner_%d.sock%n\<close>: the number of conversions, the number read, and the characters
  consumed, 0 when the scan does not get as far as \<^verbatim>\<open>%n\<close>.
\<close>

definition sscanf_miner :: "string \<Rightarrow> nat \<times> int \<times> nat" where
  "sscanf_miner s =
     (case scan_option ''miner_'' s of
        None \<Rightarrow> (0, 0, 0)
      | Some r \<Rightarrow>
          (case scan_d r of
             None \<Rightarrow> (0, 0, 0)
           | Some (v, rest) \<Rightarrow>
               (case scan_option ''.sock'' rest of
                  None \<Rightarrow> (1, v, 0)
                | Some rest' \<Rightarrow> (1, v, length s - length rest'))))"

fun collect_miners :: "string list \<Rightarrow> int list \<Rightarrow> int list" where
  "collect_miners [] ids = ids"
| "collect_miners (d_name # names) ids =
     (case sscanf_miner d_name of
        (n, miner_id, consumed) \<Rightarrow>
          collect_miners names
            (if n = 1 \<and> consumed = length d_name \<and> 0 \<le> miner_id \<and> length ids < MAX_DISCOVERED_MINERS
             then ids @ [miner_id] else ids))"

text \<open>The listing of the directory, \<open>None\<close> when it cannot be opened, and the answer of \<open>closedir\<close>.\<close>

definition discover_miners :: "string list option \<Rightarrow> bool \<Rightarrow> string ptr \<Rightarrow> project_error_t + int list" where
  "discover_miners listing closedir_ok runtime_dir =
     (case runtime_dir of
        None \<Rightarrow> Inl ERR_INVALID_ARGUMENT
      | Some dir \<Rightarrow>
          (case listing of
             None \<Rightarrow> Inl ERR_FILE_OPEN
           | Some names \<Rightarrow>
               if \<not> closedir_ok then Inl ERR_FILE_OPEN else Inr (sort (collect_miners names []))))"

section \<open>Submission\<close>

definition send_transaction_to_miner ::
  "alloc \<Rightarrow> net \<Rightarrow> connection \<Rightarrow> client_state_t \<Rightarrow> int \<Rightarrow> string \<Rightarrow> project_error_t" where
  "send_transaction_to_miner al net conn state miner_id transaction =
     (case ipc_build_socket_path (Some (c_runtime_dir state)) (Some MINER_SOCK_FORMAT) miner_id MAX_SOCKET_PATH_LEN of
        Inl e \<Rightarrow> e
      | Inr socket_path \<Rightarrow>
          (case ipc_connect (net socket_path) (Some socket_path) of
             Inl e \<Rightarrow> e
           | Inr fd \<Rightarrow>
               (case ipc_send (conn_writes conn) MSG_TX_SUBMIT (of_int (c_id state)) (Some transaction)
                       (length transaction mod 2 ^ 32) of
                  (rc, out) \<Rightarrow>
                    if rc \<noteq> PROJECT_OK then rc
                    else (case ipc_recv al (conn_reads conn) (conn_peer conn out) of
                            Inl e \<Rightarrow> e
                          | Inr (header, payload) \<Rightarrow>
                              if msg_type header \<noteq> message_code MSG_TX_ACK then ERR_SERIALIZATION
                              else if payload_len header = 2 \<and> payload \<noteq> None \<and> take 2 (the payload) = ''OK''
                              then PROJECT_OK
                              else ERR_INVALID_TRANSACTION))))"

text \<open>The environment of one submission; each attempt has its own connection.\<close>

record submit_env =
  se_alloc :: alloc
  se_net :: net
  se_listing :: "string list option"
  se_closedir :: bool
  se_conns :: "nat \<Rightarrow> connection"

text \<open>The loop over the attempts: the result and the next position, \<open>None\<close> when no miner answered.\<close>

fun try_miners ::
  "(nat \<Rightarrow> int \<Rightarrow> project_error_t) \<Rightarrow> int list \<Rightarrow> nat \<Rightarrow> nat list \<Rightarrow> (project_error_t \<times> nat) option" where
  "try_miners send ids start [] = None"
| "try_miners send ids start (attempt # attempts) =
     (let position = (start + attempt) mod length ids;
          result = send attempt (ids ! position) in
      if result = PROJECT_OK \<or> result = ERR_INVALID_TRANSACTION then Some (result, position + 1)
      else try_miners send ids start attempts)"

definition submit_transaction :: "submit_env \<Rightarrow> client_state_t \<Rightarrow> string \<Rightarrow> project_error_t \<times> client_state_t" where
  "submit_transaction e state transaction =
     (case discover_miners (se_listing e) (se_closedir e) (Some (c_runtime_dir state)) of
        Inl rc \<Rightarrow> (rc, state)
      | Inr ids \<Rightarrow>
          if length ids = 0 then (ERR_IPC, state)
          else (let start = c_next_miner state mod length ids;
                    send = (\<lambda>attempt num. send_transaction_to_miner (se_alloc e) (se_net e) (se_conns e attempt) state num transaction)
                in case try_miners send ids start [0..<length ids] of
                     Some (result, next_pos) \<Rightarrow> (result, state\<lparr>c_next_miner := next_pos\<rparr>)
                   | None \<Rightarrow> (ERR_IPC, state\<lparr>c_next_miner := start + 1\<rparr>)))"

section \<open>The loop\<close>

text \<open>
  The answers of \<open>nanosleep\<close>: the time has passed, a signal interrupted it (and may have requested the
  shutdown), or another error. The result is the shutdown flag.
\<close>

datatype sleep_answer = SLEPT | SLEEP_EINTR bool | SLEEP_ERROR

fun interruptible_sleep :: "sleep_answer list \<Rightarrow> bool \<Rightarrow> bool" where
  "interruptible_sleep [] shutdown = shutdown"
| "interruptible_sleep (a # as) shutdown =
     (if shutdown then True
      else case a of
             SLEPT \<Rightarrow> shutdown
           | SLEEP_ERROR \<Rightarrow> shutdown
           | SLEEP_EINTR requested \<Rightarrow> interruptible_sleep as requested)"

text \<open>One pass of the loop; \<open>None\<close> when the random numbers do not suffice for a transaction.\<close>

definition client_turn ::
  "submit_env \<Rightarrow> nat list \<Rightarrow> client_state_t \<Rightarrow> ((project_error_t \<times> string) option \<times> client_state_t) option" where
  "client_turn e rands state =
     (if c_frequency state = 0 then Some (None, state)
      else (case generate_transaction MAX_TRANSACTION_LENGTH rands of
              None \<Rightarrow> None
            | Some (Inl rc, rest) \<Rightarrow> Some (None, state)
            | Some (Inr transaction, rest) \<Rightarrow>
                (case submit_transaction e state transaction of
                   (rc, state') \<Rightarrow> Some (Some (rc, transaction), state'))))"

fun client_loop :: "(submit_env \<times> nat list \<times> sleep_answer list) list \<Rightarrow> bool \<Rightarrow> client_state_t \<Rightarrow> client_state_t option" where
  "client_loop [] shutdown state = Some state"
| "client_loop ((e, rands, sleeps) # turns) shutdown state =
     (if shutdown then Some state
      else (case client_turn e rands state of
              None \<Rightarrow> None
            | Some (r, state') \<Rightarrow> client_loop turns (interruptible_sleep sleeps shutdown) state'))"

section \<open>Generated transactions\<close>

lemma pick_receiver_skip:
  "\<forall>k\<in>set ks. k mod CLIENT_NAME_COUNT = sender \<Longrightarrow> x mod CLIENT_NAME_COUNT \<noteq> sender \<Longrightarrow>
   pick_receiver sender (ks @ x # rest) = Some (x mod CLIENT_NAME_COUNT, rest)"
  by (induction ks) auto

lemma pick_receiver_None: "pick_receiver sender rs = None \<longleftrightarrow> (\<forall>k\<in>set rs. k mod CLIENT_NAME_COUNT = sender)"
  by (induction sender rs rule: pick_receiver.induct) auto

lemma names_ok:
  assumes "i < CLIENT_NAME_COUNT"
  shows "CLIENT_NAMES ! i \<noteq> []" "list_all c_isalnum (CLIENT_NAMES ! i)" "length (CLIENT_NAMES ! i) \<le> 7"
proof -
  have "\<forall>w\<in>set CLIENT_NAMES. w \<noteq> [] \<and> list_all c_isalnum w \<and> length w \<le> 7" by code_simp
  moreover have "CLIENT_NAMES ! i \<in> set CLIENT_NAMES" using assms by (intro nth_mem) (simp add: CLIENT_NAMES_def)
  ultimately show "CLIENT_NAMES ! i \<noteq> []" "list_all c_isalnum (CLIENT_NAMES ! i)" "length (CLIENT_NAMES ! i) \<le> 7"
    by blast+
qed

lemma digit_char_1_9: "0 < d \<Longrightarrow> d < 10 \<Longrightarrow> c_is_1_9 (digit_char d)"
proof -
  have "\<forall>d \<in> set [1..<10]. c_is_1_9 (digit_char d)" by code_simp
  then show "0 < d \<Longrightarrow> d < 10 \<Longrightarrow> c_is_1_9 (digit_char d)" by auto
qed

lemma hd_fmt_u: "0 < n \<Longrightarrow> c_is_1_9 (hd (fmt_u n))"
proof (induction n rule: fmt_u.induct)
  case (1 n)
  show ?case
  proof (cases "n < 10")
    case True
    with 1(2) show ?thesis by (subst fmt_u.simps) (simp add: digit_char_1_9)
  next
    case False
    with 1 show ?thesis by (subst fmt_u.simps) simp
  qed
qed

lemma transaction_text_ok:
  assumes "s < CLIENT_NAME_COUNT" "r < CLIENT_NAME_COUNT" "0 < a" "a \<le> 1000"
  shows "tx_wellformed (transaction_text s r a)" "length (transaction_text s r a) \<le> 31" "tx_storable (transaction_text s r a)"
proof -
  have "list_all c_isdigit (fmt_u a)" using fmt_u_digits by (auto simp: list_all_iff)
  then show "tx_wellformed (transaction_text s r a)"
    unfolding tx_wellformed_def transaction_text_def
    using names_ok(1,2) [OF assms(1)] names_ok(1,2) [OF assms(2)] hd_fmt_u [OF assms(3)] fmt_u_nonempty by blast
  have "length (fmt_u a) \<le> 4" using assms(4) by (intro length_fmt_u) simp_all
  then show l: "length (transaction_text s r a) \<le> 31"
    using names_ok(3) [OF assms(1)] names_ok(3) [OF assms(2)] by (simp add: transaction_text_def)
  then show "tx_storable (transaction_text s r a)" by (simp add: tx_storable_def transaction_text_def)
qed

section \<open>Round robin\<close>

definition definitive :: "project_error_t \<Rightarrow> bool" where
  "definitive rc \<longleftrightarrow> rc = PROJECT_OK \<or> rc = ERR_INVALID_TRANSACTION"

lemma try_miners_find:
  "try_miners send ids start as =
     (case find (\<lambda>a. definitive (send a (ids ! ((start + a) mod length ids)))) as of
        None \<Rightarrow> None
      | Some a \<Rightarrow> Some (send a (ids ! ((start + a) mod length ids)), (start + a) mod length ids + 1))"
  by (induction as) (simp_all add: definitive_def Let_def)

text \<open>The attempts visit the miners in the order of the list rotated to the starting position.\<close>

lemma attempts_rotate:
  "ids \<noteq> [] \<Longrightarrow> map (\<lambda>a. ids ! ((start + a) mod length ids)) [0..<length ids] = rotate start ids"
  by (rule nth_equalityI) (simp_all add: nth_rotate)

lemma collect_miners_bound: "length ids \<le> MAX_DISCOVERED_MINERS \<Longrightarrow> length (collect_miners names ids) \<le> MAX_DISCOVERED_MINERS"
  by (induction names arbitrary: ids) (simp_all split: prod.split)

lemma sint32_nat: "n < 2 ^ 31 \<Longrightarrow> sint (of_nat n :: 32 word) = int n"
proof -
  assume "n < 2 ^ 31"
  then have "signed_take_bit 31 (int n) = int n" by (simp add: signed_take_bit_int_eq_self)
  moreover have "sint (word_of_int (int n) :: 32 word) = signed_take_bit 31 (int n)"
    using sint_sbintrunc' [where 'a = 32, of "int n"] by simp
  ultimately show ?thesis by simp
qed

text \<open>The file names that miners create are recognised.\<close>

lemma sscanf_miner_socket:
  assumes "n < 2 ^ 31"
  shows "sscanf_miner (printf_d MINER_SOCK_FORMAT (int n)) = (1, int n, length (printf_d MINER_SOCK_FORMAT (int n)))"
proof -
  have "strto_scan 10 (fmt_u n @ ''.sock'') = Some (False, n, ''.sock'')"
    by (rule strto_scan_fmt_u) (simp add: c_isdigit_def code_def)
  moreover from this have "fst (strtol 10 (fmt_u n @ ''.sock'')) = int n" using assms by (simp add: strtol_def)
  ultimately show ?thesis
    using sint32_nat [OF assms] by (simp add: sscanf_miner_def scan_option_def scan_d_def fmt_d_nat)
qed

section \<open>A client and a miner\<close>

text \<open>What a connection to a miner sees: a turn of its communication thread on the bytes that arrive.\<close>

definition ack_bytes :: "nat \<Rightarrow> miner_output list \<Rightarrow> char list" where
  "ack_bytes fd outs =
     concat (map (\<lambda>out. case out of Ack fd' m \<Rightarrow> if fd' = fd then wire_bytes m else [] | Proposal path b \<Rightarrow> []) outs)"

definition miner_serve :: "comm_env \<Rightarrow> nat \<Rightarrow> miner_state_t \<Rightarrow> char list \<Rightarrow> miner_state_t \<times> char list" where
  "miner_serve e fd s bytes =
     (case communication_turn (e\<lparr>ce_ready := True, ce_accept := [ACCEPT_fd fd], ce_bytes := bytes\<rparr>) s of
        (s', outs) \<Rightarrow> (s', ack_bytes fd outs))"

definition ack_message :: "miner_state_t \<Rightarrow> string \<Rightarrow> message_header_t \<times> char list" where
  "ack_message s body =
     (\<lparr>magic = PROTOCOL_MAGIC, version = PROTOCOL_VERSION, msg_type = message_code MSG_TX_ACK,
       sender_id = of_int (m_id s), payload_len = of_nat (length body)\<rparr>, body)"

lemma error_reply_text:
  "rc \<noteq> PROJECT_OK \<Longrightarrow>
     2 < length (error_reply rc) \<and> length (error_reply rc) \<le> 127 \<and> error_reply rc \<noteq> [] \<and> error_reply rc \<noteq> ''OK''"
  by (simp add: error_reply_def)

lemma tx_ack_message:
  "body \<noteq> [] \<Longrightarrow> length body \<le> 127 \<Longrightarrow> tx_ack s fd body = [Ack fd (ack_message s body)] \<and> message_ok (ack_message s body)"
  by (simp add: tx_ack_def ipc_message_def ack_message_def message_ok_def unat_of_nat)

text \<open>What the miner answers to a text that fits into its buffer, and what becomes of its pool.\<close>

definition admissible_for :: "miner_state_t \<Rightarrow> string \<Rightarrow> bool" where
  "admissible_for s t \<longleftrightarrow> tx_wellformed t \<and> pool_count (m_mempool s) < MEMPOOL_CAPACITY"

lemma tx_submit_outcome:
  assumes "miner_inv s" "alloc_total al" "t \<noteq> []" "is_cstring t" "length t < MAX_TRANSACTION_LENGTH"
  shows "\<exists>s' body. handle_tx_submit al s (Some t) (length t) fd = (s', [Ack fd (ack_message s' body)])
    \<and> message_ok (ack_message s' body) \<and> body \<noteq> [] \<and> length body \<le> 127
    \<and> pool_live (m_mempool s') = (if admissible_for s t then pool_live (m_mempool s) @ [t] else pool_live (m_mempool s))
    \<and> (admissible_for s t \<longrightarrow> body = ''OK'') \<and> (\<not> admissible_for s t \<longrightarrow> 2 < length body)"
proof -
  have wf: "pool_wf (m_mempool s)" using assms(1) by (simp add: miner_inv_def)
  have same_text: "submitted_text (Some t) (length t) = t" using assms(4,5) by (auto simp: submitted_text_def)
  have st: "tx_storable t" using assms(3,5) by (simp add: tx_storable_def)
  show ?thesis
  proof (cases rule: tx_submit_cases [of al s "Some t" "length t" fd])
    case (refused rc)
    have "\<not> admissible_for s t"
    proof
      assume a: "admissible_for s t"
      then have "validate_transaction al (Some t) = PROJECT_OK"
        using st assms(2) by (intro validate_transaction_total) (simp_all add: admissible_for_def alloc_totalD)
      then have "snd (handle_tx_submit al s (Some t) (length t) fd) = tx_ack s fd ''OK''"
        using a st wf same_text by (simp add: handle_tx_submit_def mempool_add_cases admissible_for_def Let_def tx_ack_def)
      with refused(1) tx_ack_message [of "''OK''" s fd] tx_ack_message [of "error_reply rc" s fd] error_reply_text [OF refused(2)]
      show False by (auto simp: ack_message_def)
    qed
    with refused(1) error_reply_text [OF refused(2)] tx_ack_message [of "error_reply rc" s fd] show ?thesis
      by (intro exI [of _ s] exI [of _ "error_reply rc"]) auto
  next
    case (added pool)
    note ok = mempool_add_OK [OF wf added(2)]
    have "admissible_for s t"
      using added(2) validate_transaction_OK [OF added(1)] same_text wf st
      by (auto simp: admissible_for_def mempool_add_cases pool_wf_def split: if_splits)
    with ok added(3) same_text tx_ack_message [of "''OK''" s fd] show ?thesis
      by (intro exI [of _ "s\<lparr>m_mempool := pool\<rparr>"] exI [of _ "''OK''"]) (auto simp: ack_message_def)
  qed
qed

lemma miner_serve_submit:
  assumes "message_ok m" "msg_type (fst m) = message_code MSG_TX_SUBMIT" "snd m \<noteq> []" "\<not> m_shutting_down s"
    "no_errors (ce_reads e)" "ce_alloc e (length (snd m))"
    "handle_tx_submit (ce_alloc e) s (Some (snd m)) (length (snd m)) fd = (s', [Ack fd m'])"
  shows "miner_serve e fd s (wire_bytes m) = (s', wire_bytes m')"
proof -
  have "ipc_recv (ce_alloc e) (ce_reads e) (wire_bytes m @ []) = Inr (fst m, payload_ptr (snd m))"
    using assms(1,5,6) by (rule ipc_recv_eq)
  with assms show ?thesis
    by (simp add: miner_serve_def communication_turn_def miner_handle_message_def payload_ptr_def message_ok_def ack_bytes_def)
qed

definition miner_connection :: "comm_env \<Rightarrow> nat \<Rightarrow> miner_state_t \<Rightarrow> connection \<Rightarrow> bool" where
  "miner_connection e fd s conn \<longleftrightarrow> no_errors (conn_writes conn) \<and> no_errors (conn_reads conn) \<and> no_errors (ce_reads e)
     \<and> conn_peer conn = (\<lambda>bytes. snd (miner_serve e fd s bytes))"

definition miner_reachable :: "net \<Rightarrow> string \<Rightarrow> int \<Rightarrow> bool" where
  "miner_reachable net dir num \<longleftrightarrow>
     (\<exists>path fd. ipc_build_socket_path (Some dir) (Some MINER_SOCK_FORMAT) num MAX_SOCKET_PATH_LEN = Inr path
                \<and> ipc_connect (net path) (Some path) = Inr fd)"

section \<open>A small client\<close>

definition example_client :: client_state_t where
  "example_client = \<lparr>c_id = 1, c_frequency = 2, c_runtime_dir = ''/tmp/x'', c_next_miner = 4\<rparr>"

definition example_comm :: comm_env where
  "example_comm = \<lparr>ce_alloc = no_oom, ce_net = open_net,
     ce_conns = (example_conn (example_node 0 [example_genesis]), example_conn (example_node 0 [example_genesis])),
     ce_ready = True, ce_accept = [], ce_reads = [SYS_moves 3], ce_bytes = []\<rparr>"

definition miner_conn :: connection where
  "miner_conn = \<lparr>conn_writes = [], conn_reads = [SYS_moves 1],
     conn_peer = (\<lambda>bytes. snd (miner_serve example_comm 5 (example_miner 0 zero_hash) bytes))\<rparr>"

definition example_submit :: submit_env where
  "example_submit = \<lparr>se_alloc = no_oom, se_net = example_net,
     se_listing = Some [''.'', ''miner_7.sock'', ''node_0.sock'', ''miner_3.sock'', ''miner_3.sock.old''], se_closedir = True,
     se_conns = (\<lambda>_. miner_conn)\<rparr>"

section \<open>Properties\<close>

text \<open>
  C36. Generating a transaction ends as soon as the random numbers name a receiver other than the
  sender, and not before: as long as they all name the sender the loop goes on. What it produces is
  a transaction of the grammar, with two different names and an amount between 1 and 1000, of at most
  31 characters, that every validation with memory for the pattern accepts.
\<close>

theorem generated_transaction_valid:
  assumes "\<forall>k\<in>set ks. k mod CLIENT_NAME_COUNT = r0 mod CLIENT_NAME_COUNT"
  shows "generate_transaction MAX_TRANSACTION_LENGTH (r0 # ks) = None
    \<and> (x mod CLIENT_NAME_COUNT \<noteq> r0 mod CLIENT_NAME_COUNT \<longrightarrow>
         (\<exists>line. generate_transaction MAX_TRANSACTION_LENGTH (r0 # ks @ x # y # rest) = Some (Inr line, rest)
            \<and> line = transaction_text (r0 mod CLIENT_NAME_COUNT) (x mod CLIENT_NAME_COUNT) (1 + y mod 1000)
            \<and> tx_wellformed line \<and> length line \<le> 31
            \<and> (al regcomp_bytes \<longrightarrow> validate_transaction al (Some line) = PROJECT_OK)))"
proof -
  let ?line = "transaction_text (r0 mod CLIENT_NAME_COUNT) (x mod CLIENT_NAME_COUNT) (1 + y mod 1000)"
  have ok: "tx_wellformed ?line" "length ?line \<le> 31" "tx_storable ?line"
    using transaction_text_ok [of "r0 mod CLIENT_NAME_COUNT" "x mod CLIENT_NAME_COUNT" "1 + y mod 1000"] by simp_all
  have "pick_receiver (r0 mod CLIENT_NAME_COUNT) ks = None" using assms pick_receiver_None by blast
  moreover have "generate_transaction MAX_TRANSACTION_LENGTH (r0 # ks @ x # y # rest) = Some (Inr ?line, rest)"
    if "x mod CLIENT_NAME_COUNT \<noteq> r0 mod CLIENT_NAME_COUNT"
    using pick_receiver_skip [OF assms that, of "y # rest"] ok(2) by (simp add: generate_transaction_def Let_def)
  ultimately show ?thesis
    using ok validate_transaction_total [of al ?line] by (simp add: generate_transaction_def Let_def)
qed

theorem generated_transaction_valid_witness:
  "\<exists>line. generate_transaction MAX_TRANSACTION_LENGTH [2, 14, 26, 0, 999] = Some (Inr line, []) \<and> tx_wellformed line"
  using generated_transaction_valid [of "[14, 26]" 2 0 999 "[]" no_oom] by auto

text \<open>
  C37. Round robin: the miners that are found are at most 256, in increasing order. A submission asks
  them in the order of this list rotated to the client's position, each at most once, until one
  gives a definitive answer (accepted or rejected), which is the result; the next submission starts
  behind that miner. When none does, every one of them has been asked, the result is \<open>ERR_IPC\<close>, and
  the next submission starts one further.
\<close>

theorem submit_round_robin:
  assumes "discover_miners (se_listing e) (se_closedir e) (Some (c_runtime_dir s)) = Inr ids" "ids \<noteq> []"
    "send = (\<lambda>a num. send_transaction_to_miner (se_alloc e) (se_net e) (se_conns e a) s num tx)"
    "start = c_next_miner s mod length ids" "submit_transaction e s tx = (rc, s')"
  shows "sorted ids \<and> length ids \<le> MAX_DISCOVERED_MINERS
    \<and> (case find (\<lambda>a. definitive (send a (rotate start ids ! a))) [0..<length ids] of
         None \<Rightarrow> rc = ERR_IPC \<and> s' = s\<lparr>c_next_miner := start + 1\<rparr>
       | Some a \<Rightarrow> rc = send a (rotate start ids ! a)
           \<and> s' = s\<lparr>c_next_miner := (start + a) mod length ids + 1\<rparr>)"
proof -
  have ids: "\<exists>names. ids = sort (collect_miners names [])"
    using assms(1) by (auto simp: discover_miners_def split: option.splits if_splits)
  have rot: "rotate start ids ! a = ids ! ((start + a) mod length ids)" if "a < length ids" for a
    using that by (simp add: nth_rotate)
  have "find (\<lambda>a. definitive (send a (rotate start ids ! a))) [0..<length ids] =
      find (\<lambda>a. definitive (send a (ids ! ((start + a) mod length ids)))) [0..<length ids]"
    using rot by (intro find_cong) auto
  moreover have "a < length ids" if "find P [0..<length ids] = Some a" for P a
    using that by (auto simp: find_Some_iff)
  moreover have "submit_transaction e s tx = (case try_miners send ids start [0..<length ids] of
      Some (result, next_pos) \<Rightarrow> (result, s\<lparr>c_next_miner := next_pos\<rparr>) | None \<Rightarrow> (ERR_IPC, s\<lparr>c_next_miner := start + 1\<rparr>))"
    unfolding assms(3,4) using assms(1,2) by (simp add: submit_transaction_def Let_def)
  ultimately show ?thesis
    using ids assms(5) rot collect_miners_bound [of "[]"] by (auto simp: try_miners_find split: option.splits)
qed

theorem submit_round_robin_witness:
  "submit_transaction example_submit example_client example_tx = (ERR_IPC, example_client\<lparr>c_next_miner := 1\<rparr>)"
proof -
  let ?send = "\<lambda>a num. send_transaction_to_miner no_oom example_net miner_conn example_client num example_tx"
  have ids: "discover_miners (se_listing example_submit) (se_closedir example_submit) (Some (c_runtime_dir example_client)) = Inr [3, 7]"
    by (simp add: discover_miners_def example_submit_def sscanf_miner_def scan_option_def scan_d_def strto_scan_def scan_sign_def
        strtol_def is_base_digit_def digit_val_def c_isspace_def code_def digits_val_def Let_def)
  have "\<not> definitive (?send a num)" if "0 \<le> num" for a :: nat and num
    using that by (auto simp: definitive_def send_transaction_to_miner_def example_client_def
        ipc_build_socket_path_def ipc_connect_def
        example_net_def Let_def)
  then have "find (\<lambda>a. definitive (?send a (rotate 0 [3, 7] ! a))) [0..<2] = None"
    by (auto simp: find_None_iff nth_Cons' less_2_cases_iff)
  then have none: "find (\<lambda>a. definitive (?send a (rotate 0 [3, 7] ! a))) [0..<length [3, 7 :: int]] = None"
    by (simp add: numeral_2_eq_2)
  have start: "0 = c_next_miner example_client mod length [3, 7 :: int]"
    by (simp add: example_client_def flip: numeral_2_eq_2)
  have send: "?send = (\<lambda>a num. send_transaction_to_miner (se_alloc example_submit) (se_net example_submit)
      (se_conns example_submit a) example_client num example_tx)"
    by (simp add: example_submit_def)
  obtain rc s' where r: "submit_transaction example_submit example_client example_tx = (rc, s')" by fastforce
  show ?thesis using submit_round_robin [OF ids _ send start r] none r by (simp del: upt_conv_Cons upt_rec_numeral)
qed



end
