(* ===== verification/ProcessInfo.thy ===== *)
theory ProcessInfo
  imports Errors CLib
begin

text \<open>
  The table of child processes (\<^verbatim>\<open>include/process_info.h\<close>, \<^verbatim>\<open>common/process_info.c\<close>) that the
  bootstrap process keeps: an array of at most 256 entries, of which the live prefix is the list
  \<open>entries\<close>. A found entry is returned as its position. Its contract, a table that grows at the end
  and is searched for the first match, is the locale \<open>registry\<close>.
\<close>

section \<open>Operations\<close>

datatype process_type_t = PROCESS_TYPE_NODE | PROCESS_TYPE_MINER | PROCESS_TYPE_CLIENT

datatype process_state_t = PROCESS_STATE_RUNNING | PROCESS_STATE_PAUSED | PROCESS_STATE_TERMINATED

record process_entry_t =
  p_type :: process_type_t
  p_id :: int
  p_pid :: int
  p_state :: process_state_t

abbreviation MAX_TRACKED_PROCESSES :: nat where
  "MAX_TRACKED_PROCESSES \<equiv> 256"

record process_table_t =
  entries :: "process_entry_t list"

definition process_table_init :: "process_table_t ptr \<Rightarrow> project_error_t \<times> process_table_t ptr" where
  "process_table_init table =
     (case table of None \<Rightarrow> (ERR_INVALID_ARGUMENT, None) | Some t \<Rightarrow> (PROJECT_OK, Some (t\<lparr>entries := []\<rparr>)))"

definition process_table_add ::
  "process_table_t ptr \<Rightarrow> process_type_t \<Rightarrow> int \<Rightarrow> int \<Rightarrow> project_error_t \<times> process_table_t ptr" where
  "process_table_add table type num pid =
     (case table of
        None \<Rightarrow> (ERR_INVALID_ARGUMENT, None)
      | Some t \<Rightarrow>
          if MAX_TRACKED_PROCESSES \<le> length (entries t) then (ERR_MEMORY_ALLOCATION, table)
          else (PROJECT_OK,
                Some (t\<lparr>entries := entries t
                  @ [\<lparr>p_type = type, p_id = num, p_pid = pid, p_state = PROCESS_STATE_RUNNING\<rparr>]\<rparr>)))"

definition process_table_find :: "process_table_t ptr \<Rightarrow> process_type_t \<Rightarrow> int \<Rightarrow> nat option" where
  "process_table_find table type num =
     (case table of
        None \<Rightarrow> None
      | Some t \<Rightarrow> find_position (\<lambda>e. p_type e = type \<and> p_id e = num) 0 (entries t))"

definition process_table_find_by_pid :: "process_table_t ptr \<Rightarrow> int \<Rightarrow> nat option" where
  "process_table_find_by_pid table pid =
     (case table of None \<Rightarrow> None | Some t \<Rightarrow> find_position (\<lambda>e. p_pid e = pid) 0 (entries t))"

fun process_type_string :: "process_type_t \<Rightarrow> string" where
  "process_type_string PROCESS_TYPE_NODE = ''NODE''"
| "process_type_string PROCESS_TYPE_MINER = ''MINER''"
| "process_type_string PROCESS_TYPE_CLIENT = ''CLIENT''"

fun process_state_string :: "process_state_t \<Rightarrow> string" where
  "process_state_string PROCESS_STATE_RUNNING = ''RUNNING''"
| "process_state_string PROCESS_STATE_PAUSED = ''PAUSED''"
| "process_state_string PROCESS_STATE_TERMINATED = ''TERMINATED''"

text \<open>A conversion \<^verbatim>\<open>%-ns\<close>: the text, padded with spaces to the width.\<close>

definition pad_right :: "nat \<Rightarrow> string \<Rightarrow> string" where
  "pad_right n s = s @ replicate (n - length s) (CHR '' '')"

definition process_row :: "string \<Rightarrow> string \<Rightarrow> string \<Rightarrow> string \<Rightarrow> string" where
  "process_row a b c d =
     pad_right 8 a @ '' '' @ pad_right 4 b @ '' '' @ pad_right 8 c @ '' '' @ pad_right 10 d @ [CHR 0x0A]"

text \<open>The text printed on the standard output.\<close>

definition process_table_print :: "process_table_t ptr \<Rightarrow> string" where
  "process_table_print table =
     (case table of
        None \<Rightarrow> []
      | Some t \<Rightarrow>
          process_row ''TYPE'' ''ID'' ''PID'' ''STATE''
          @ concat (map (\<lambda>e. process_row (process_type_string (p_type e)) (fmt_d (p_id e))
                              (fmt_d (p_pid e)) (process_state_string (p_state e))) (entries t)))"

section \<open>The contract of a table of processes\<close>

text \<open>
  A table with rows, a way to add a row for a key, and a search for the first row with a key. What
  a client of the table relies on: a successful addition can be found, and it does not change what
  was found before.
\<close>

locale registry =
  fixes rows :: "'t \<Rightarrow> 'r list" and bound :: nat and key :: "'r \<Rightarrow> 'k" and key_of :: "'a \<Rightarrow> 'k"
    and add :: "'t \<Rightarrow> 'a \<Rightarrow> 't option" and find :: "'t \<Rightarrow> 'k \<Rightarrow> nat option"
  assumes add_some: "add t a = Some t' \<Longrightarrow> \<exists>r. rows t' = rows t @ [r] \<and> key r = key_of a"
    and add_none: "add t a = None \<longleftrightarrow> bound \<le> length (rows t)"
    and find_first: "find t k = find_position (\<lambda>r. key r = k) 0 (rows t)"
begin

lemma find_after_add:
  assumes "add t a = Some t'"
  shows "find t' j =
    (case find t j of Some i \<Rightarrow> Some i | None \<Rightarrow> if j = key_of a then Some (length (rows t)) else None)"
proof -
  obtain r where "rows t' = rows t @ [r]" "key r = key_of a" using add_some [OF assms] by blast
  then show ?thesis by (auto simp: find_first find_position_append split: option.splits)
qed

lemma found_has_key: "find t k = Some i \<Longrightarrow> i < length (rows t) \<and> key (rows t ! i) = k"
  by (simp add: find_first find_position_Some)

lemma not_found: "find t k = None \<longleftrightarrow> k \<notin> key ` set (rows t)"
  by (auto simp: find_first find_position_None)

lemma bounded: "add t a = Some t' \<Longrightarrow> length (rows t') \<le> bound"
  using add_some [of t a t'] add_none [of t a] by fastforce

end

definition table_add :: "process_table_t \<Rightarrow> process_type_t \<times> int \<times> int \<Rightarrow> process_table_t option" where
  "table_add t k = (case k of (type, num, pid) \<Rightarrow>
     (case process_table_add (Some t) type num pid of (rc, r) \<Rightarrow> if rc = PROJECT_OK then r else None))"

text \<open>The table searched by role and number, and by process identifier.\<close>

interpretation by_role: registry entries MAX_TRACKED_PROCESSES "\<lambda>e. (p_type e, p_id e)"
  "\<lambda>(type, num, pid). (type, num)" table_add "\<lambda>t (type, num). process_table_find (Some t) type num"
  by unfold_locales
    (auto simp: table_add_def process_table_add_def process_table_find_def split: if_splits)

interpretation by_pid: registry entries MAX_TRACKED_PROCESSES p_pid
  "\<lambda>(type, num, pid). pid" table_add "\<lambda>t pid. process_table_find_by_pid (Some t) pid"
  by unfold_locales
    (auto simp: table_add_def process_table_add_def process_table_find_by_pid_def split: if_splits)

section \<open>Property\<close>

text \<open>
  C34. The process table: an addition to a full table is refused and changes nothing, otherwise one
  running entry is added at the end; afterwards looking up a role and number, or a process
  identifier, gives what it gave before, and the new entry where nothing was found before.
\<close>

theorem process_table_add_find:
  assumes "process_table_add (Some t) kind num pid = (rc, Some t')"
  shows "if 256 \<le> length (entries t) then rc = ERR_MEMORY_ALLOCATION \<and> t' = t
    else rc = PROJECT_OK
      \<and> entries t' = entries t @ [\<lparr>p_type = kind, p_id = num, p_pid = pid, p_state = PROCESS_STATE_RUNNING\<rparr>]
      \<and> process_table_find (Some t') k j =
          (case process_table_find (Some t) k j of
             Some i \<Rightarrow> Some i | None \<Rightarrow> if k = kind \<and> j = num then Some (length (entries t)) else None)
      \<and> process_table_find_by_pid (Some t') q =
          (case process_table_find_by_pid (Some t) q of
             Some i \<Rightarrow> Some i | None \<Rightarrow> if q = pid then Some (length (entries t)) else None)"
proof (cases "256 \<le> length (entries t)")
  case True
  with assms show ?thesis by (simp add: process_table_add_def)
next
  case False
  then have "table_add t (kind, num, pid) = Some t'"
    using assms by (simp add: table_add_def process_table_add_def)
  note found = by_role.find_after_add [OF this, of "(k, j)"] by_pid.find_after_add [OF this, of q]
  have "rc = PROJECT_OK"
    "entries t' = entries t @ [\<lparr>p_type = kind, p_id = num, p_pid = pid, p_state = PROCESS_STATE_RUNNING\<rparr>]"
    using assms False by (auto simp: process_table_add_def)
  with found False show ?thesis by (simp add: Pair_inject split: option.splits)
qed

theorem process_table_add_find_witness:
  "process_table_find (Some \<lparr>entries = [\<lparr>p_type = PROCESS_TYPE_NODE, p_id = 0, p_pid = 77, p_state = PROCESS_STATE_RUNNING\<rparr>]\<rparr>)
     PROCESS_TYPE_NODE 0 = Some 0"
proof -
  have a: "process_table_add (Some \<lparr>entries = []\<rparr>) PROCESS_TYPE_NODE 0 77 =
    (PROJECT_OK, Some \<lparr>entries = [\<lparr>p_type = PROCESS_TYPE_NODE, p_id = 0, p_pid = 77, p_state = PROCESS_STATE_RUNNING\<rparr>]\<rparr>)"
    by (simp add: process_table_add_def)
  show ?thesis
    using process_table_add_find [OF a, of PROCESS_TYPE_NODE 0 77] by (simp add: process_table_find_def)
qed

end
