(* ===== verification/Bootstrap.thy ===== *)
theory Bootstrap
  imports Client ProcessInfo
begin

text \<open>
  The controller (\<^verbatim>\<open>bootstrap/bootstrap.c\<close>): it parses the configuration, prepares the runtime
  directory, starts the nodes, miners and clients, executes the commands of the user and shuts
  everything down. The answers of the kernel (\<open>fork\<close>, \<open>kill\<close>, \<open>waitpid\<close>, files, directories,
  sockets, the clock) are arguments.
\<close>

section \<open>Configuration\<close>

record bootstrap_config_t =
  num_nodes :: int
  num_miners :: int
  num_clients :: int
  cfg_frequency :: int
  cfg_difficulty :: int
  initial_state_path :: "string ptr"

abbreviation DEFAULT_DIFFICULTY :: int where
  "DEFAULT_DIFFICULTY \<equiv> 4"

abbreviation DEFAULT_TRANSACTION_FREQUENCY :: int where
  "DEFAULT_TRANSACTION_FREQUENCY \<equiv> 0"

text \<open>The parser of the bootstrap process; it does not look whether a number was read at all.\<close>

definition parse_count :: "string ptr \<Rightarrow> project_error_t + int" where
  "parse_count str =
     (case str of
        None \<Rightarrow> Inl ERR_INVALID_ARGUMENT
      | Some s \<Rightarrow>
          if s = [] then Inl ERR_INVALID_ARGUMENT
          else (case strtol 10 s of
                  (v, rest, range_error) \<Rightarrow>
                    if range_error \<or> rest \<noteq> [] \<or> v < 0 \<or> INT_MAX < v then Inl ERR_INVALID_ARGUMENT
                    else Inr v))"

text \<open>An optional argument: absent, or a number.\<close>

definition parse_optional :: "string list \<Rightarrow> nat \<Rightarrow> int \<Rightarrow> project_error_t + int" where
  "parse_optional argv i dflt = (if i < length argv then parse_count (Some (argv ! i)) else Inr dflt)"

definition parse_arguments :: "string list \<Rightarrow> project_error_t + bootstrap_config_t" where
  "parse_arguments argv =
     (if length argv < 4 \<or> 7 < length argv then Inl ERR_INVALID_ARGUMENT
      else (case (parse_count (Some (argv ! 1)), parse_count (Some (argv ! 2)), parse_count (Some (argv ! 3))) of
              (Inr nodes, Inr miners, Inr clients) \<Rightarrow>
                if nodes < 1 then Inl ERR_INVALID_ARGUMENT
                else (case (parse_optional argv 4 DEFAULT_TRANSACTION_FREQUENCY, parse_optional argv 5 DEFAULT_DIFFICULTY) of
                        (Inr freq, Inr diff) \<Rightarrow>
                          Inr \<lparr>num_nodes = nodes, num_miners = miners, num_clients = clients, cfg_frequency = freq,
                               cfg_difficulty = diff,
                               initial_state_path = (if 7 \<le> length argv then Some (argv ! 6) else None)\<rparr>
                      | _ \<Rightarrow> Inl ERR_INVALID_ARGUMENT)
            | _ \<Rightarrow> Inl ERR_INVALID_ARGUMENT))"

section \<open>The runtime directory\<close>

abbreviation RUNTIME_DIR_BUFFER_SIZE :: nat where
  "RUNTIME_DIR_BUFFER_SIZE \<equiv> 256"

text \<open>The argument \<open>mkdir_ok\<close> answers \<open>mkdir\<close>.\<close>

definition create_runtime_directory :: "(string \<Rightarrow> bool) \<Rightarrow> int \<Rightarrow> nat \<Rightarrow> project_error_t + string" where
  "create_runtime_directory mkdir_ok pid out_size =
     (let dir = ''/tmp/blockchain_'' @ fmt_d pid; logs_dir = dir @ ''/logs'' in
      if out_size \<le> length dir then Inl ERR_INVALID_ARGUMENT
      else if \<not> mkdir_ok dir then Inl ERR_FILE_WRITE
      else if RUNTIME_DIR_BUFFER_SIZE + 5 + 1 \<le> length logs_dir then Inl ERR_INVALID_ARGUMENT
      else if \<not> mkdir_ok logs_dir then Inl ERR_FILE_WRITE
      else Inr dir)"

text \<open>
  Copying in pieces of 4096 bytes: the number of the piece whose \<open>fwrite\<close> is short, if any. The
  result is whether all were written, and the bytes written.
\<close>

function copy_pieces :: "nat option \<Rightarrow> nat \<Rightarrow> string \<Rightarrow> bool \<times> string" where
  "copy_pieces fails i s =
     (if s = [] then (True, [])
      else if fails = Some i then (False, [])
      else (case copy_pieces fails (i + 1) (drop 4096 s) of (ok, out) \<Rightarrow> (ok, take 4096 s @ out)))"
  by pat_completeness auto
termination
  by (relation "measure (\<lambda>(fails, i, s). length s)") auto

declare copy_pieces.simps [simp del]

record copy_env =
  cp_source :: "(string \<times> bool) option"
  cp_dest_opens :: bool
  cp_short_write :: "nat option"
  cp_close_ok :: bool

definition copy_initial_state :: "copy_env \<Rightarrow> string \<Rightarrow> string \<Rightarrow> project_error_t \<times> string" where
  "copy_initial_state e source_path runtime_dir =
     (let dest_path = runtime_dir @ ''/initial_state.csv'' in
      if RUNTIME_DIR_BUFFER_SIZE + 18 + 1 \<le> length dest_path then (ERR_INVALID_ARGUMENT, [])
      else (case cp_source e of
              None \<Rightarrow> (ERR_FILE_OPEN, [])
            | Some (content, read_error) \<Rightarrow>
                if \<not> cp_dest_opens e then (ERR_FILE_OPEN, [])
                else (case copy_pieces (cp_short_write e) 0 content of
                        (ok, out) \<Rightarrow>
                          if \<not> ok then (ERR_FILE_WRITE, out)
                          else if \<not> cp_close_ok e \<or> read_error then (ERR_FILE_WRITE, out)
                          else (PROJECT_OK, out))))"

text \<open>
  A directory tree, and the answers of the calls on its paths. Removing a directory also needs it to
  be empty. The result is the status and what is left.
\<close>

datatype fs = FS_file | FS_dir "(string \<times> fs) list"

record rm_env =
  rm_opendir :: "string \<Rightarrow> bool"
  rm_lstat :: "string \<Rightarrow> bool"
  rm_unlink :: "string \<Rightarrow> bool"
  rm_rmdir :: "string \<Rightarrow> bool"

definition join_results :: "bool \<times> 'a list \<Rightarrow> bool \<times> 'a list \<Rightarrow> bool \<times> 'a list" where
  "join_results r r' = (fst r \<or> fst r', snd r @ snd r')"

text \<open>What becomes of an entry that is a directory, from the result of removing it.\<close>

definition directory_result :: "string \<Rightarrow> project_error_t \<times> fs option \<Rightarrow> bool \<times> (string \<times> fs) list" where
  "directory_result d_name r = (fst r \<noteq> PROJECT_OK, (case snd r of None \<Rightarrow> [] | Some t \<Rightarrow> [(d_name, t)]))"

fun remove_tree :: "rm_env \<Rightarrow> string \<Rightarrow> fs \<Rightarrow> project_error_t \<times> fs option"
  and remove_entries :: "rm_env \<Rightarrow> string \<Rightarrow> (string \<times> fs) list \<Rightarrow> bool \<times> (string \<times> fs) list" where
  "remove_tree e path FS_file = (ERR_IPC, Some FS_file)"
| "remove_tree e path (FS_dir es) =
     (if \<not> rm_opendir e path then (ERR_IPC, Some (FS_dir es))
      else (case remove_entries e path es of
              (had_error, left) \<Rightarrow>
                if left = [] \<and> rm_rmdir e path then (if had_error then ERR_IPC else PROJECT_OK, None)
                else (ERR_IPC, Some (FS_dir left))))"
| "remove_entries e path [] = (False, [])"
| "remove_entries e path ((d_name, t) # es) =
     join_results
       (if d_name = ''.'' \<or> d_name = ''..'' then (False, [(d_name, t)])
        else if 600 \<le> length (path @ ''/'' @ d_name) then (True, [(d_name, t)])
        else if \<not> rm_lstat e (path @ ''/'' @ d_name) then (True, [(d_name, t)])
        else (case t of
                FS_dir es' \<Rightarrow> directory_result d_name (remove_tree e (path @ ''/'' @ d_name) t)
              | FS_file \<Rightarrow> if rm_unlink e (path @ ''/'' @ d_name) then (False, []) else (True, [(d_name, t)])))
       (remove_entries e path es)"

definition recursive_remove :: "rm_env \<Rightarrow> string \<Rightarrow> fs option \<Rightarrow> project_error_t \<times> fs option" where
  "recursive_remove e path t = (case t of None \<Rightarrow> (PROJECT_OK, None) | Some t' \<Rightarrow> remove_tree e path t')"

section \<open>Child processes\<close>

text \<open>A child that was started: the binary, its arguments and its process number.\<close>

type_synonym child = "string \<times> string list \<times> int"

text \<open>The answer of \<open>fork\<close> in the parent: a process number, negative for a failure.\<close>

definition spawn_process :: "int \<Rightarrow> project_error_t + int" where
  "spawn_process fork_answer = (if fork_answer < 0 then Inl ERR_PROCESS else Inr fork_answer)"

text \<open>
  The loop of the three spawn functions over the numbers of the children: the status, the table and
  the children that were started, whether or not the table took them.
\<close>

fun spawn_loop ::
  "process_type_t \<Rightarrow> string \<Rightarrow> (int \<Rightarrow> string list) \<Rightarrow> (int \<Rightarrow> int) \<Rightarrow> int list \<Rightarrow> process_table_t \<Rightarrow>
   project_error_t \<times> process_table_t \<times> child list" where
  "spawn_loop kind binary args fork [] table = (PROJECT_OK, table, [])"
| "spawn_loop kind binary args fork (num # nums) table =
     (case spawn_process (fork num) of
        Inl e \<Rightarrow> (e, table, [])
      | Inr pid \<Rightarrow>
          (case process_table_add (Some table) kind num pid of
             (rc, table') \<Rightarrow>
               if rc \<noteq> PROJECT_OK then (rc, the table', [(binary, args num, pid)])
               else (case spawn_loop kind binary args fork nums (the table') of
                       (rc', table'', started) \<Rightarrow> (rc', table'', (binary, args num, pid) # started))))"

definition node_argv :: "string \<Rightarrow> int \<Rightarrow> string list" where
  "node_argv runtime_dir num = [''node'', take 15 (fmt_d num), runtime_dir]"

definition miner_argv :: "string \<Rightarrow> int \<Rightarrow> int \<Rightarrow> string list" where
  "miner_argv runtime_dir diff num = [''miner'', take 15 (fmt_d num), runtime_dir, take 15 (fmt_d diff)]"

definition client_argv :: "string \<Rightarrow> int \<Rightarrow> int \<Rightarrow> string list" where
  "client_argv runtime_dir freq num = [''client'', take 15 (fmt_d num), runtime_dir, take 15 (fmt_d freq)]"

definition spawn_nodes ::
  "(int \<Rightarrow> int) \<Rightarrow> int \<Rightarrow> string \<Rightarrow> process_table_t \<Rightarrow> project_error_t \<times> process_table_t \<times> child list" where
  "spawn_nodes fork n runtime_dir table =
     spawn_loop PROCESS_TYPE_NODE ''bin/node'' (node_argv runtime_dir) fork [0..n - 1] table"

definition spawn_miners ::
  "(int \<Rightarrow> int) \<Rightarrow> int \<Rightarrow> string \<Rightarrow> int \<Rightarrow> process_table_t \<Rightarrow> project_error_t \<times> process_table_t \<times> child list" where
  "spawn_miners fork n runtime_dir diff table =
     spawn_loop PROCESS_TYPE_MINER ''bin/miner'' (miner_argv runtime_dir diff) fork [0..n - 1] table"

definition spawn_clients ::
  "(int \<Rightarrow> int) \<Rightarrow> int \<Rightarrow> string \<Rightarrow> int \<Rightarrow> process_table_t \<Rightarrow> project_error_t \<times> process_table_t \<times> child list" where
  "spawn_clients fork n runtime_dir freq table =
     spawn_loop PROCESS_TYPE_CLIENT ''bin/client'' (client_argv runtime_dir freq) fork [0..n - 1] table"

text \<open>The part of \<open>main\<close> that starts everything: the first failure ends it.\<close>

definition spawn_all ::
  "(process_type_t \<Rightarrow> int \<Rightarrow> int) \<Rightarrow> bootstrap_config_t \<Rightarrow> string \<Rightarrow> process_table_t \<Rightarrow>
   project_error_t \<times> process_table_t \<times> child list" where
  "spawn_all fork config runtime_dir table =
     (case spawn_nodes (fork PROCESS_TYPE_NODE) (num_nodes config) runtime_dir table of
        (rc1, t1, started1) \<Rightarrow>
          if rc1 \<noteq> PROJECT_OK then (rc1, t1, started1)
          else (case spawn_miners (fork PROCESS_TYPE_MINER) (num_miners config) runtime_dir (cfg_difficulty config) t1 of
                  (rc2, t2, started2) \<Rightarrow>
                    if rc2 \<noteq> PROJECT_OK then (rc2, t2, started1 @ started2)
                    else (case spawn_clients (fork PROCESS_TYPE_CLIENT) (num_clients config) runtime_dir (cfg_frequency config) t2 of
                            (rc3, t3, started3) \<Rightarrow> (rc3, t3, started1 @ started2 @ started3))))"

section \<open>Process control\<close>

datatype signal = SIGSTOP | SIGCONT | SIGTERM | SIGKILL

text \<open>Set the state of the entry at a position.\<close>

definition set_state :: "process_table_t \<Rightarrow> nat \<Rightarrow> process_state_t \<Rightarrow> process_table_t" where
  "set_state table i st = table\<lparr>entries := (entries table)[i := (entries table ! i)\<lparr>p_state := st\<rparr>]\<rparr>"

text \<open>The process numbers that \<open>waitpid\<close> returns until there is no terminated child left.\<close>

fun reap_terminated_children :: "int list \<Rightarrow> process_table_t \<Rightarrow> process_table_t" where
  "reap_terminated_children [] table = table"
| "reap_terminated_children (pid # pids) table =
     (case process_table_find_by_pid (Some table) pid of
        None \<Rightarrow> reap_terminated_children pids table
      | Some i \<Rightarrow> reap_terminated_children pids (set_state table i PROCESS_STATE_TERMINATED))"

text \<open>\<open>kill_ok pid\<close> answers \<open>kill\<close> for the signal in question.\<close>

definition pause_all :: "(int \<Rightarrow> bool) \<Rightarrow> process_table_t \<Rightarrow> process_table_t" where
  "pause_all kill_ok table =
     table\<lparr>entries := map (\<lambda>e. if p_state e = PROCESS_STATE_RUNNING \<and> kill_ok (p_pid e)
                               then e\<lparr>p_state := PROCESS_STATE_PAUSED\<rparr> else e) (entries table)\<rparr>"

definition resume_all :: "(int \<Rightarrow> bool) \<Rightarrow> process_table_t \<Rightarrow> process_table_t" where
  "resume_all kill_ok table =
     table\<lparr>entries := map (\<lambda>e. if p_state e = PROCESS_STATE_PAUSED \<and> kill_ok (p_pid e)
                               then e\<lparr>p_state := PROCESS_STATE_RUNNING\<rparr> else e) (entries table)\<rparr>"

text \<open>The signals of the first loop of \<open>shutdown_all\<close>, in order.\<close>

definition term_signals :: "process_entry_t \<Rightarrow> (signal \<times> int) list" where
  "term_signals e =
     (if p_state e = PROCESS_STATE_TERMINATED then []
      else (if p_state e = PROCESS_STATE_PAUSED then [(SIGCONT, p_pid e)] else []) @ [(SIGTERM, p_pid e)])"

definition remaining :: "process_table_t \<Rightarrow> process_entry_t list" where
  "remaining table = filter (\<lambda>e. p_state e \<noteq> PROCESS_STATE_TERMINATED) (entries table)"

text \<open>
  The polling loop: what each round reaps and whether the deadline is still ahead after it. The clock
  goes on, so the deadline has passed at the latest when the list is used up.
\<close>

fun shutdown_wait :: "(int list \<times> bool) list \<Rightarrow> process_table_t \<Rightarrow> process_table_t" where
  "shutdown_wait [] table = table"
| "shutdown_wait ((pids, before_deadline) # rounds) table =
     (let table' = reap_terminated_children pids table in
      if remaining table' \<noteq> [] \<and> before_deadline then shutdown_wait rounds table' else table')"

text \<open>The table at the end and all signals sent, in order.\<close>

definition shutdown_all :: "(int list \<times> bool) list \<Rightarrow> process_table_t \<Rightarrow> process_table_t \<times> (signal \<times> int) list" where
  "shutdown_all rounds table =
     (let terms = concat (map term_signals (entries table)); table' = shutdown_wait rounds table in
      if remaining table' \<noteq> []
      then (table'\<lparr>entries := map (\<lambda>e. e\<lparr>p_state := PROCESS_STATE_TERMINATED\<rparr>) (entries table')\<rparr>,
            terms @ map (\<lambda>e. (SIGKILL, p_pid e)) (remaining table'))
      else (table', terms))"

section \<open>Commands\<close>

record boot_state =
  b_config :: bootstrap_config_t
  b_runtime_dir :: string
  b_table :: process_table_t
  b_running :: bool
  b_next_miner :: int

record cmd_env =
  ca_alloc :: alloc
  ca_net :: net
  ca_conn :: connection
  ca_kill :: "int \<Rightarrow> bool"
  ca_fopen :: bool
  ca_disk :: nat

datatype boot_output = Printed string | Complaint string | File_written string string

definition send_request ::
  "cmd_env \<Rightarrow> string \<Rightarrow> message_type_t \<Rightarrow> string ptr \<Rightarrow>
   (project_error_t \<times> string) + (message_header_t \<times> char list ptr)" where
  "send_request e sock_path type payload =
     (case ipc_connect (ca_net e sock_path) (Some sock_path) of
        Inl rc \<Rightarrow> Inl (rc, ''bootstrap: could not reach '' @ sock_path @ '': '' @ project_error_string (error_code rc))
      | Inr fd \<Rightarrow>
          (let len = (case payload of None \<Rightarrow> 0 | Some p \<Rightarrow> length p mod 2 ^ 32) in
           case ipc_send (conn_writes (ca_conn e)) type 0 payload len of
             (rc, out) \<Rightarrow>
               if rc \<noteq> PROJECT_OK then Inl (rc, ''bootstrap: send failed: '' @ project_error_string (error_code rc))
               else (case ipc_recv (ca_alloc e) (conn_reads (ca_conn e)) (conn_peer (ca_conn e) out) of
                       Inl rc \<Rightarrow> Inl (rc, ''bootstrap: no response: '' @ project_error_string (error_code rc))
                     | Inr r \<Rightarrow> Inr r)))"

definition build_node0_path :: "string \<Rightarrow> nat \<Rightarrow> project_error_t + string" where
  "build_node0_path runtime_dir out_size =
     ipc_build_socket_path (Some runtime_dir) (Some NODE_SOCK_FORMAT) 0 out_size"

definition print_response :: "message_header_t \<Rightarrow> char list ptr \<Rightarrow> boot_output" where
  "print_response header response =
     Printed (if payload_len header \<noteq> 0 then cstr (take (unat (payload_len header)) (the response)) @ [CHR 0x0A]
              else ''(empty response)'' @ [CHR 0x0A])"

definition request_and_print :: "cmd_env \<Rightarrow> string \<Rightarrow> message_type_t \<Rightarrow> string \<Rightarrow> boot_output list" where
  "request_and_print e sock_path type payload =
     (case send_request e sock_path type (Some payload) of
        Inl (rc, why) \<Rightarrow> [Complaint why]
      | Inr (header, response) \<Rightarrow> [print_response header response])"

text \<open>The text between the first and the last quotation mark.\<close>

definition quoted_text :: "string \<Rightarrow> string option" where
  "quoted_text args =
     (case strchr args (CHR 0x22) of
        None \<Rightarrow> None
      | Some i \<Rightarrow>
          (case strrchr (drop (i + 1) args) (CHR 0x22) of
             None \<Rightarrow> None
           | Some j \<Rightarrow> Some (take j (drop (i + 1) args))))"

definition command_submit :: "cmd_env \<Rightarrow> string \<Rightarrow> boot_state \<Rightarrow> boot_state \<times> boot_output list" where
  "command_submit e args s =
     (if num_miners (b_config s) \<le> 0 then (s, [Complaint ''bootstrap: no miners running''])
      else (case quoted_text args of
              None \<Rightarrow> (s, [Complaint (''usage: submit '' @ [CHR 0x22] @ ''<transaction>'' @ [CHR 0x22])])
            | Some transaction \<Rightarrow>
                if MAX_TRANSACTION_LENGTH \<le> length transaction
                then (s, [Complaint ''bootstrap: transaction too long''])
                else (case ipc_build_socket_path (Some (b_runtime_dir s)) (Some MINER_SOCK_FORMAT) (b_next_miner s)
                             MAX_SOCKET_PATH_LEN of
                        Inl rc \<Rightarrow> (s, [Complaint ''bootstrap: could not build miner socket path''])
                      | Inr sock_path \<Rightarrow>
                          (s\<lparr>b_next_miner := (b_next_miner s + 1) mod num_miners (b_config s)\<rparr>,
                           request_and_print e sock_path MSG_TX_SUBMIT transaction))))"

definition command_request_blockchain :: "cmd_env \<Rightarrow> string \<Rightarrow> boot_state \<Rightarrow> boot_output list" where
  "command_request_blockchain e args s =
     (case build_node0_path (b_runtime_dir s) MAX_SOCKET_PATH_LEN of
        Inl rc \<Rightarrow> [Complaint ''bootstrap: could not build node socket path'']
      | Inr sock_path \<Rightarrow> request_and_print e sock_path MSG_QUERY_CHAIN (dropWhile (\<lambda>c. c = CHR '' '') args))"

definition command_request_block :: "cmd_env \<Rightarrow> string \<Rightarrow> boot_state \<Rightarrow> boot_output list" where
  "command_request_block e args s =
     (case build_node0_path (b_runtime_dir s) MAX_SOCKET_PATH_LEN of
        Inl rc \<Rightarrow> [Complaint ''bootstrap: could not build node socket path'']
      | Inr sock_path \<Rightarrow> request_and_print e sock_path MSG_QUERY_BLOCK args)"

text \<open>The file receives as many bytes as the disk takes; the result of \<open>fwrite\<close> is not looked at.\<close>

definition command_save_blockchain :: "cmd_env \<Rightarrow> string \<Rightarrow> boot_state \<Rightarrow> boot_output list" where
  "command_save_blockchain e filename s =
     (case build_node0_path (b_runtime_dir s) MAX_SOCKET_PATH_LEN of
        Inl rc \<Rightarrow> [Complaint ''bootstrap: could not build node socket path'']
      | Inr sock_path \<Rightarrow>
          (case send_request e sock_path MSG_QUERY_CHAIN (Some []) of
             Inl (rc, why) \<Rightarrow> [Complaint why]
           | Inr (header, response) \<Rightarrow>
               if \<not> ca_fopen e then [Complaint (''bootstrap: could not open '' @ filename @ '' for writing'')]
               else [File_written filename
                       (if payload_len header \<noteq> 0
                        then take (ca_disk e) (take (unat (payload_len header)) (the response)) else []),
                     Printed (''blockchain saved to '' @ filename @ [CHR 0x0A])]))"

definition handle_line :: "cmd_env \<Rightarrow> string \<Rightarrow> boot_state \<Rightarrow> boot_state \<times> boot_output list" where
  "handle_line e line s =
     (case scan_option ''submit '' line of
        Some args \<Rightarrow> command_submit e args s
      | None \<Rightarrow>
     (case scan_option ''request blockchain'' line of
        Some args \<Rightarrow> (s, command_request_blockchain e args s)
      | None \<Rightarrow>
     (case scan_option ''request block '' line of
        Some args \<Rightarrow> (s, command_request_block e args s)
      | None \<Rightarrow>
     (case scan_option ''save blockchain '' line of
        Some filename \<Rightarrow> (s, command_save_blockchain e filename s)
      | None \<Rightarrow>
          if line = ''pause'' then (s\<lparr>b_table := pause_all (ca_kill e) (b_table s)\<rparr>, [])
          else if line = ''resume'' then (s\<lparr>b_table := resume_all (ca_kill e) (b_table s)\<rparr>, [])
          else if line = ''status'' then (s, [Printed (process_table_print (Some (b_table s)))])
          else if line = ''stop'' then (s\<lparr>b_running := False\<rparr>, [])
          else (s, [Complaint (''bootstrap: unknown command: '' @ line)])))))"

section \<open>The main loop\<close>

text \<open>The answers of \<open>fgets\<close> on the standard input.\<close>

datatype input = Input string | Input_eintr | Input_end

definition strip_newlines :: "string \<Rightarrow> string" where
  "strip_newlines line = rev (dropWhile (\<lambda>c. c = CHR 0x0A \<or> c = CHR 0x0D) (rev line))"

text \<open>
  One pass: the children that have terminated, whether a signal has requested the shutdown, the
  input, and the environment of the command. The last result says whether the loop goes on.
\<close>

definition boot_turn :: "int list \<Rightarrow> bool \<Rightarrow> input \<Rightarrow> cmd_env \<Rightarrow> boot_state \<Rightarrow> boot_state \<times> boot_output list \<times> bool" where
  "boot_turn reaped requested inp e s =
     (let s1 = s\<lparr>b_table := reap_terminated_children reaped (b_table s)\<rparr> in
      if requested then (s1, [], False)
      else (case inp of
              Input_eintr \<Rightarrow> (s1, [], True)
            | Input_end \<Rightarrow> (s1, [], False)
            | Input buf \<Rightarrow>
                (let line = strip_newlines buf in
                 if line = [] then (s1, [], True)
                 else (case handle_line e line s1 of (s2, outs) \<Rightarrow> (s2, outs, True)))))"

fun boot_loop :: "(int list \<times> bool \<times> input \<times> cmd_env) list \<Rightarrow> boot_state \<Rightarrow> boot_state \<times> boot_output list" where
  "boot_loop [] s = (s, [])"
| "boot_loop ((reaped, requested, inp, e) # turns) s =
     (if \<not> b_running s then (s, [])
      else (case boot_turn reaped requested inp e s of
              (s', outs, goes_on) \<Rightarrow>
                if goes_on then (case boot_loop turns s' of (s'', outs') \<Rightarrow> (s'', outs @ outs')) else (s', outs)))"

text \<open>
  \<open>main\<close>: the environment of the whole run. The result is the exit status, the table at the end, the
  children, the signals sent at the end, and what is left of the runtime directory.
\<close>

record boot_env =
  be_pid :: int
  be_mkdir :: "string \<Rightarrow> bool"
  be_copy :: copy_env
  be_fork :: "process_type_t \<Rightarrow> int \<Rightarrow> int"
  be_turns :: "(int list \<times> bool \<times> input \<times> cmd_env) list"
  be_rounds :: "(int list \<times> bool) list"
  be_files :: fs
  be_remove :: rm_env

definition bootstrap_main ::
  "boot_env \<Rightarrow> string list \<Rightarrow>
   exit_status \<times> process_table_t \<times> child list \<times> (signal \<times> int) list \<times> fs option" where
  "bootstrap_main e argv =
     (case parse_arguments argv of
        Inl rc \<Rightarrow> (EXIT_FAILURE, \<lparr>entries = []\<rparr>, [], [], None)
      | Inr config \<Rightarrow>
          (case create_runtime_directory (be_mkdir e) (be_pid e) RUNTIME_DIR_BUFFER_SIZE of
             Inl rc \<Rightarrow> (EXIT_FAILURE, \<lparr>entries = []\<rparr>, [], [], None)
           | Inr runtime_dir \<Rightarrow>
               (let left = snd (recursive_remove (be_remove e) runtime_dir (Some (be_files e))) in
                if (case initial_state_path config of
                      None \<Rightarrow> False
                    | Some p \<Rightarrow> fst (copy_initial_state (be_copy e) p runtime_dir) \<noteq> PROJECT_OK)
                then (EXIT_FAILURE, \<lparr>entries = []\<rparr>, [], [], left)
                else (case spawn_all (be_fork e) config runtime_dir \<lparr>entries = []\<rparr> of
                        (rc, table, children) \<Rightarrow>
                          if rc \<noteq> PROJECT_OK
                          then (case shutdown_all (be_rounds e) table of
                                  (table', signals) \<Rightarrow> (EXIT_FAILURE, table', children, signals, left))
                          else (let s = fst (boot_loop (be_turns e)
                                       \<lparr>b_config = config, b_runtime_dir = runtime_dir, b_table = table,
                                        b_running = True, b_next_miner = 0\<rparr>)
                                in case shutdown_all (be_rounds e) (b_table s) of
                                     (table', signals) \<Rightarrow> (EXIT_SUCCESS, table', children, signals, left))))))"

section \<open>Numbers on the command line\<close>

lemma strtol_no_conversion: "strtol b s = (v, rest, err) \<Longrightarrow> rest = s \<Longrightarrow> s \<noteq> [] \<Longrightarrow> rest \<noteq> []"
  by simp

text \<open>The two parsers of the program accept the same texts with the same values.\<close>

lemma parse_count_eq: "parse_count p = parse_non_negative_int p"
  by (auto simp: parse_count_def parse_non_negative_int_def split: option.splits prod.splits)

lemma parse_count_bounds: "parse_count p = Inr v \<Longrightarrow> 0 \<le> v \<and> v \<le> INT_MAX"
  by (auto simp: parse_count_def split: option.splits prod.splits if_splits)

lemma fmt_d_small:
  assumes "0 \<le> v" "v \<le> INT_MAX"
  shows "take 15 (fmt_d v) = fmt_u (nat v)" "strtol 10 (fmt_u (nat v)) = (v, [], False)"
proof -
  have "length (fmt_u (nat v)) \<le> 10" using assms by (intro length_fmt_u) simp_all
  then show "take 15 (fmt_d v) = fmt_u (nat v)" using assms(1) by (simp add: fmt_d_def)
  show "strtol 10 (fmt_u (nat v)) = (v, [], False)" using assms strtol_fmt_u [of "nat v"] by simp
qed

lemma parse_printed:
  assumes "0 \<le> v" "v \<le> INT_MAX"
  shows "parse_non_negative_int (Some (take 15 (fmt_d v))) = Inr v" "atoi (take 15 (fmt_d v)) = v"
proof -
  note f = fmt_d_small [OF assms]
  show "parse_non_negative_int (Some (take 15 (fmt_d v))) = Inr v"
    using f assms by (simp add: parse_non_negative_int_def fmt_u_nonempty [symmetric])
  have "sint (of_nat (nat v) :: 32 word) = v" using assms by (subst sint32_nat) simp_all
  then show "atoi (take 15 (fmt_d v)) = v" using f assms by (simp add: atoi_def)
qed

lemma parse_arguments_bounds:
  assumes "parse_arguments argv = Inr config"
  shows "1 \<le> num_nodes config \<and> num_nodes config \<le> INT_MAX" "0 \<le> num_miners config \<and> num_miners config \<le> INT_MAX"
    "0 \<le> num_clients config \<and> num_clients config \<le> INT_MAX" "0 \<le> cfg_frequency config \<and> cfg_frequency config \<le> INT_MAX"
    "0 \<le> cfg_difficulty config \<and> cfg_difficulty config \<le> INT_MAX"
proof -
  obtain a b c f d where p: "parse_count (Some (argv ! 1)) = Inr a" "parse_count (Some (argv ! 2)) = Inr b"
    "parse_count (Some (argv ! 3)) = Inr c" "parse_optional argv 4 DEFAULT_TRANSACTION_FREQUENCY = Inr f"
    "parse_optional argv 5 DEFAULT_DIFFICULTY = Inr d" "1 \<le> a"
    and c: "num_nodes config = a" "num_miners config = b" "num_clients config = c" "cfg_frequency config = f" "cfg_difficulty config = d"
    using assms by (auto simp: parse_arguments_def split: if_splits sum.splits)
  have "0 \<le> f \<and> f \<le> INT_MAX" "0 \<le> d \<and> d \<le> INT_MAX"
    using p(4,5) parse_count_bounds by (auto simp: parse_optional_def split: if_splits)
  with p parse_count_bounds [OF p(1)] parse_count_bounds [OF p(2)] parse_count_bounds [OF p(3)] c
  show "1 \<le> num_nodes config \<and> num_nodes config \<le> INT_MAX" "0 \<le> num_miners config \<and> num_miners config \<le> INT_MAX"
    "0 \<le> num_clients config \<and> num_clients config \<le> INT_MAX" "0 \<le> cfg_frequency config \<and> cfg_frequency config \<le> INT_MAX"
    "0 \<le> cfg_difficulty config \<and> cfg_difficulty config \<le> INT_MAX" by simp_all
qed

section \<open>Removing a tree\<close>

lemma remove_tree_status:
  "fst (remove_tree e path t) = PROJECT_OK \<longleftrightarrow> snd (remove_tree e path t) = None"
  "fst (remove_entries e path es) \<Longrightarrow> snd (remove_entries e path es) \<noteq> []"
proof (induction e path t and e path es rule: remove_tree_remove_entries.induct)
  case (2 e path es)
  then show ?case by (cases "remove_entries e path es") auto
next
  case (4 e path d_name t es)
  then show ?case
    by (auto simp: join_results_def directory_result_def split: if_splits fs.splits option.splits)
qed auto

text \<open>The trees of which every path fits into the buffer, with names other than the two dots.\<close>

fun tree_fits :: "string \<Rightarrow> fs \<Rightarrow> bool" and entries_fit :: "string \<Rightarrow> (string \<times> fs) list \<Rightarrow> bool" where
  "tree_fits path FS_file = True"
| "tree_fits path (FS_dir es) = entries_fit path es"
| "entries_fit path [] = True"
| "entries_fit path ((d_name, t) # es) =
     (d_name \<noteq> ''.'' \<and> d_name \<noteq> ''..'' \<and> length (path @ ''/'' @ d_name) < 600 \<and> tree_fits (path @ ''/'' @ d_name) t
      \<and> entries_fit path es)"

definition rm_all_ok :: "rm_env \<Rightarrow> bool" where
  "rm_all_ok e \<longleftrightarrow> (\<forall>p. rm_opendir e p \<and> rm_lstat e p \<and> rm_unlink e p \<and> rm_rmdir e p)"

lemma remove_tree_all:
  "rm_all_ok e \<Longrightarrow> tree_fits path t \<Longrightarrow> t \<noteq> FS_file \<Longrightarrow> remove_tree e path t = (PROJECT_OK, None)"
  "rm_all_ok e \<Longrightarrow> entries_fit path es \<Longrightarrow> remove_entries e path es = (False, [])"
proof (induction e path t and e path es rule: remove_tree_remove_entries.induct)
  case (4 e path d_name t es)
  then show ?case
    by (cases t) (auto simp: join_results_def directory_result_def rm_all_ok_def)
qed (auto simp: rm_all_ok_def)

section \<open>Processes\<close>

text \<open>What identifies an entry, whatever its state.\<close>

definition ident :: "process_entry_t \<Rightarrow> process_type_t \<times> int \<times> int" where
  "ident e = (p_type e, p_id e, p_pid e)"

lemma ident_state [simp]: "ident (e\<lparr>p_state := st\<rparr>) = ident e"
  by (simp add: ident_def)

lemma ident_pids: "map ident xs = map ident ys \<Longrightarrow> map p_pid xs = map p_pid ys \<and> length xs = length ys"
proof -
  assume eq: "map ident xs = map ident ys"
  have "map p_pid zs = map (\<lambda>i. snd (snd i)) (map ident zs)" for zs by (simp add: ident_def comp_def)
  with eq have "map p_pid xs = map p_pid ys" by metis
  then show ?thesis by (metis length_map)
qed

text \<open>An entry after some steps of process control: the same process, possibly terminated by now.\<close>

definition later :: "process_entry_t \<Rightarrow> process_entry_t \<Rightarrow> bool" where
  "later e e' \<longleftrightarrow> e' = e \<or> e' = e\<lparr>p_state := PROCESS_STATE_TERMINATED\<rparr>"

lemma later_trans: "later a b \<Longrightarrow> later b c \<Longrightarrow> later a c"
  by (auto simp: later_def)

lemma set_state_later: "list_all2 later (entries t) (entries (set_state t i PROCESS_STATE_TERMINATED))"
  by (cases "i < length (entries t)")
    (auto simp: set_state_def list_all2_conv_all_nth later_def nth_list_update)

lemma reap_later: "list_all2 later (entries t) (entries (reap_terminated_children pids t))"
proof (induction pids t rule: reap_terminated_children.induct)
  case (1 t)
  then show ?case by (simp add: list_all2_conv_all_nth later_def)
next
  case (2 pid pids t)
  then show ?case
    using list_all2_trans [of later later later, OF later_trans set_state_later [of t]] by (auto split: option.splits)
qed

lemma shutdown_wait_later: "list_all2 later (entries t) (entries (shutdown_wait rounds t))"
proof (induction rounds t rule: shutdown_wait.induct)
  case (1 t)
  then show ?case by (simp add: list_all2_conv_all_nth later_def)
next
  case (2 pids before rounds t)
  then show ?case
    using list_all2_trans [of later later later, OF later_trans reap_later [of t pids]] reap_later [of t pids]
    by (auto simp: Let_def)
qed

lemma later_ident: "list_all2 later xs ys \<Longrightarrow> map ident ys = map ident xs"
  by (induction rule: list_all2_induct) (auto simp: later_def)

lemma later_remaining:
  "list_all2 later xs ys \<Longrightarrow> e \<in> set ys \<Longrightarrow> p_state e \<noteq> PROCESS_STATE_TERMINATED \<Longrightarrow> e \<in> set xs"
  by (induction rule: list_all2_induct) (auto simp: later_def)

lemma pause_resume_ident [simp]:
  "map ident (entries (pause_all k t)) = map ident (entries t)" "map ident (entries (resume_all k t)) = map ident (entries t)"
  by (simp_all add: pause_all_def resume_all_def)

lemma command_submit_table [simp]: "b_table (fst (command_submit e args s)) = b_table s"
  by (cases "quoted_text args") (simp_all add: command_submit_def split: sum.split)

lemma handle_line_ident: "map ident (entries (b_table (fst (handle_line e line s)))) = map ident (entries (b_table s))"
proof (cases "scan_option ''submit '' line = None \<and> scan_option ''request blockchain'' line = None
    \<and> scan_option ''request block '' line = None \<and> scan_option ''save blockchain '' line = None")
  case True
  then show ?thesis by (simp add: handle_line_def)
next
  case False
  then have "b_table (fst (handle_line e line s)) = b_table s"
    by (cases "scan_option ''submit '' line"; cases "scan_option ''request blockchain'' line";
        cases "scan_option ''request block '' line"; cases "scan_option ''save blockchain '' line")
      (simp_all add: handle_line_def)
  then show ?thesis by simp
qed

lemma boot_turn_ident:
  assumes "boot_turn reaped requested inp e s = (s', outs, c)"
  shows "map ident (entries (b_table s')) = map ident (entries (b_table s))"
proof -
  let ?s1 = "s\<lparr>b_table := reap_terminated_children reaped (b_table s)\<rparr>"
  have reaped: "map ident (entries (b_table ?s1)) = map ident (entries (b_table s))"
    using later_ident [OF reap_later, of reaped "b_table s"] by simp
  have "s' = ?s1 \<or> (\<exists>line. s' = fst (handle_line e line ?s1))"
    using assms by (cases inp) (auto simp: boot_turn_def Let_def split: if_splits prod.splits, metis fst_conv)
  with reaped handle_line_ident [of e _ ?s1] show ?thesis by auto
qed

lemma boot_loop_ident: "map ident (entries (b_table (fst (boot_loop turns s)))) = map ident (entries (b_table s))"
proof (induction turns s rule: boot_loop.induct)
  case (2 reaped requested inp e turns s)
  obtain s' outs c where t: "boot_turn reaped requested inp e s = (s', outs, c)" by (metis prod_cases3)
  with 2 boot_turn_ident [OF t] show ?case by (auto split: prod.splits)
qed simp

lemma shutdown_all_spec:
  assumes "shutdown_all rounds t = (t', sigs)"
  shows "remaining t' = []" "map ident (entries t') = map ident (entries t)"
    "\<exists>killed. sigs = concat (map term_signals (entries t)) @ map (\<lambda>e. (SIGKILL, p_pid e)) killed
       \<and> set killed \<subseteq> set (remaining t)"
proof -
  let ?w = "shutdown_wait rounds t"
  note l = shutdown_wait_later [of t rounds]
  have sub: "set (remaining ?w) \<subseteq> set (remaining t)"
    using later_remaining [OF l] by (auto simp: remaining_def)
  show "remaining t' = []" using assms by (auto simp: shutdown_all_def Let_def remaining_def comp_def split: if_splits)
  show "map ident (entries t') = map ident (entries t)"
    using assms later_ident [OF l] by (auto simp: shutdown_all_def Let_def comp_def split: if_splits)
  have "sigs = concat (map term_signals (entries t)) @ map (\<lambda>e. (SIGKILL, p_pid e)) (remaining ?w)"
    using assms by (auto simp: shutdown_all_def Let_def split: if_splits)
  with sub show "\<exists>killed. sigs = concat (map term_signals (entries t)) @ map (\<lambda>e. (SIGKILL, p_pid e)) killed
       \<and> set killed \<subseteq> set (remaining t)" by blast
qed

text \<open>The children that were started are those in the table, with one exception when the table is full.\<close>

abbreviation child_pid :: "child \<Rightarrow> int" where
  "child_pid c \<equiv> snd (snd c)"

definition accounted :: "project_error_t \<Rightarrow> process_table_t \<Rightarrow> child list \<Rightarrow> bool" where
  "accounted rc t cs \<longleftrightarrow> length (entries t) \<le> MAX_TRACKED_PROCESSES
     \<and> (map child_pid cs = map p_pid (entries t)
        \<or> (rc \<noteq> PROJECT_OK \<and> length (entries t) = MAX_TRACKED_PROCESSES
           \<and> (\<exists>x. map child_pid cs = map p_pid (entries t) @ [x])))"

lemma spawn_loop_accounts:
  assumes "accounted PROJECT_OK t cs" "spawn_loop kind b a f nums t = (rc, t', started)"
  shows "accounted rc t' (cs @ started)"
  using assms
proof (induction nums arbitrary: t cs started)
  case (Cons num nums)
  have full: "length (entries t) \<le> 256" "map child_pid cs = map p_pid (entries t)"
    using Cons.prems(1) by (auto simp: accounted_def)
  show ?case
  proof (cases "f num < 0 \<or> 256 \<le> length (entries t)")
    case True
    then show ?thesis
      using Cons.prems(2) full by (auto simp: spawn_process_def process_table_add_def accounted_def split: if_splits)
  next
    case False
    let ?t = "t\<lparr>entries := entries t @ [\<lparr>p_type = kind, p_id = num, p_pid = f num, p_state = PROCESS_STATE_RUNNING\<rparr>]\<rparr>"
    obtain more where r: "spawn_loop kind b a f nums ?t = (rc, t', more)" "started = (b, a num, f num) # more"
      using Cons.prems(2) False by (auto simp: spawn_process_def process_table_add_def split: prod.splits)
    have "accounted PROJECT_OK ?t (cs @ [(b, a num, f num)])" using full False by (simp add: accounted_def)
    from Cons.IH [OF this r(1)] show ?thesis using r(2) by simp
  qed
qed (auto simp: accounted_def)

lemma spawn_all_accounts:
  assumes "spawn_all fork config dir \<lparr>entries = []\<rparr> = (rc, t, cs)"
  shows "accounted rc t cs"
proof -
  have start: "accounted PROJECT_OK \<lparr>entries = []\<rparr> []" by (simp add: accounted_def)
  obtain rc1 t1 s1 where n: "spawn_nodes (fork PROCESS_TYPE_NODE) (num_nodes config) dir \<lparr>entries = []\<rparr> = (rc1, t1, s1)"
    by (metis prod_cases3)
  obtain rc2 t2 s2 where m: "spawn_miners (fork PROCESS_TYPE_MINER) (num_miners config) dir (cfg_difficulty config) t1 = (rc2, t2, s2)"
    by (metis prod_cases3)
  obtain rc3 t3 s3 where c: "spawn_clients (fork PROCESS_TYPE_CLIENT) (num_clients config) dir (cfg_frequency config) t2 = (rc3, t3, s3)"
    by (metis prod_cases3)
  note a1 = spawn_loop_accounts [OF start n [unfolded spawn_nodes_def]]
  note a2 = spawn_loop_accounts [OF _ m [unfolded spawn_miners_def], of s1]
  note a3 = spawn_loop_accounts [OF _ c [unfolded spawn_clients_def], of "s1 @ s2"]
  show ?thesis using assms n m c a1 a2 a3 by (auto simp: spawn_all_def split: if_splits)
qed

section \<open>Requests\<close>

text \<open>A request over a path that can be reached is the query of a node.\<close>

lemma send_request_query:
  assumes "ipc_build_socket_path (Some dir) (Some NODE_SOCK_FORMAT) 0 MAX_SOCKET_PATH_LEN = Inr path"
    "query_node (ca_alloc e) (ca_net e) (ca_conn e) dir kind payload = Inr r"
  shows "send_request e path kind payload = Inr r"
  using assms by (auto simp: query_node_def send_request_def Let_def split: sum.splits prod.splits if_splits)

section \<open>A small system\<close>

definition example_table :: process_table_t where
  "example_table = \<lparr>entries =
     [\<lparr>p_type = PROCESS_TYPE_NODE, p_id = 0, p_pid = 100, p_state = PROCESS_STATE_RUNNING\<rparr>,
      \<lparr>p_type = PROCESS_TYPE_MINER, p_id = 0, p_pid = 101, p_state = PROCESS_STATE_PAUSED\<rparr>,
      \<lparr>p_type = PROCESS_TYPE_CLIENT, p_id = 0, p_pid = 102, p_state = PROCESS_STATE_TERMINATED\<rparr>]\<rparr>"

definition example_rm :: rm_env where
  "example_rm = \<lparr>rm_opendir = (\<lambda>_. True), rm_lstat = (\<lambda>_. True), rm_unlink = (\<lambda>_. True), rm_rmdir = (\<lambda>_. True)\<rparr>"

definition example_tree :: fs where
  "example_tree = FS_dir [(''logs'', FS_dir [(''miner-101.log'', FS_file)]), (''node_0.sock'', FS_file)]"

definition example_boot :: boot_env where
  "example_boot = \<lparr>be_pid = 42, be_mkdir = (\<lambda>_. True),
     be_copy = \<lparr>cp_source = None, cp_dest_opens = True, cp_short_write = None, cp_close_ok = True\<rparr>,
     be_fork = (\<lambda>kind num. 100 + num), be_turns = [], be_rounds = [([100], True), ([], False)],
     be_files = example_tree, be_remove = example_rm\<rparr>"

definition example_cmd :: "node_t \<Rightarrow> cmd_env" where
  "example_cmd n = \<lparr>ca_alloc = no_oom, ca_net = open_net, ca_conn = example_conn n, ca_kill = (\<lambda>_. True), ca_fopen = True,
     ca_disk = 65536\<rparr>"

definition example_shell :: boot_state where
  "example_shell = \<lparr>b_config = \<lparr>num_nodes = 1, num_miners = 0, num_clients = 0, cfg_frequency = 0, cfg_difficulty = 4,
       initial_state_path = None\<rparr>, b_runtime_dir = ''/tmp/x'', b_table = example_table, b_running = True, b_next_miner = 0\<rparr>"

section \<open>Properties\<close>



text \<open>
  C14. No child is forgotten, with one exception: at the end of the program every child it has started
  is in the table and marked as terminated, in the order in which they were started. The exception is
  a configuration of more than 256 processes: the 257th is started, the full table refuses it, the
  program fails, and this one child is neither tracked nor signalled.
\<close>

theorem children_accounted:
  assumes "bootstrap_main e argv = (status, t, children, sigs, left)"
  shows "remaining t = [] \<and> length (entries t) \<le> MAX_TRACKED_PROCESSES
    \<and> (map child_pid children = map p_pid (entries t)
       \<or> (status = EXIT_FAILURE \<and> length (entries t) = MAX_TRACKED_PROCESSES
          \<and> (\<exists>x. map child_pid children = map p_pid (entries t) @ [x])))"
proof (cases "children = [] \<and> entries t = []")
  case True
  then show ?thesis by (simp add: remaining_def)
next
  case False
  then obtain config dir rc table s0 where spawn: "spawn_all (be_fork e) config dir \<lparr>entries = []\<rparr> = (rc, table, children)"
    and down: "shutdown_all (be_rounds e) s0 = (t, sigs)" "map ident (entries s0) = map ident (entries table)"
    and status: "rc \<noteq> PROJECT_OK \<longrightarrow> status = EXIT_FAILURE"
    using assms boot_loop_ident
    by (fastforce simp: bootstrap_main_def Let_def split: sum.splits if_splits prod.splits)
  note down_spec = shutdown_all_spec [OF down(1)]
  have "map p_pid (entries t) = map p_pid (entries table) \<and> length (entries t) = length (entries table)"
    using down_spec(2) down(2) by (intro ident_pids) simp
  with spawn_all_accounts [OF spawn] down_spec(1) status show ?thesis by (auto simp: accounted_def)
qed

theorem children_accounted_witness:
  "\<exists>t children sigs left. bootstrap_main example_boot [''bootstrap'', ''1'', ''0'', ''0''] = (EXIT_SUCCESS, t, children, sigs, left)
     \<and> remaining t = [] \<and> map child_pid children = map p_pid (entries t)"
proof -
  let ?r = "bootstrap_main example_boot [''bootstrap'', ''1'', ''0'', ''0'']"
  obtain st t cs sigs left where r: "?r = (st, t, cs, sigs, left)" by (metis prod_cases5)
  have "parse_arguments [''bootstrap'', ''1'', ''0'', ''0''] =
      Inr \<lparr>num_nodes = 1, num_miners = 0, num_clients = 0, cfg_frequency = 0, cfg_difficulty = 4, initial_state_path = None\<rparr>"
    by (simp add: parse_arguments_def parse_count_def parse_optional_def strtol_def strto_scan_def scan_sign_def
        is_base_digit_def digit_val_def c_isspace_def code_def digits_val_def)
  then have "st = EXIT_SUCCESS"
    using r by (simp add: bootstrap_main_def example_boot_def create_runtime_directory_def Let_def fmt_d_def fmt_u.simps
        digit_char_def spawn_all_def spawn_nodes_def spawn_miners_def spawn_clients_def spawn_process_def process_table_add_def
        split: prod.splits)
  with r children_accounted [OF r] show ?thesis by auto
qed



text \<open>
  C40. Removing the runtime directory: the function ends on every tree, and it reports success exactly
  when nothing is left. When the calls succeed and every path fits into its buffer, nothing is left.
\<close>

theorem recursive_remove_exact:
  "(fst (recursive_remove e path t) = PROJECT_OK \<longleftrightarrow> snd (recursive_remove e path t) = None)
   \<and> (rm_all_ok e \<and> tree_fits path (FS_dir es) \<longrightarrow> recursive_remove e path (Some (FS_dir es)) = (PROJECT_OK, None))"
  using remove_tree_status(1) [of e path] remove_tree_all(1) [of e path "FS_dir es"]
  by (auto simp: recursive_remove_def split: option.split)

theorem recursive_remove_exact_witness:
  "recursive_remove example_rm ''/tmp/blockchain_42'' (Some example_tree) = (PROJECT_OK, None)"
  unfolding example_tree_def
  by (rule conjunct2 [OF recursive_remove_exact, THEN mp]) (simp add: rm_all_ok_def example_rm_def)



end
